theory Spec2Isabelle
  imports Main "HOL-Library.AList"
begin

section \<open>Values of the source language\<close>

text \<open>
  JavaScript numbers that the program handles are byte counts, retry counts and the
  sentinels \<open>NaN\<close> (what \<open>parseInt\<close> gives for a missing header) and \<open>Infinity\<close>
  (a threshold the tests pass for \<open>minSizeToShowProgress\<close>). Finite numbers are modelled
  as mathematical integers: the model is exact for sizes below \<open>2^53\<close>.
\<close>

datatype number = NaN | Num int | Infinity

text \<open>Truthiness of a number, as \<open>if (x)\<close>, \<open>x && ...\<close> and \<open>x || ...\<close> test it.\<close>

fun truthy :: "number \<Rightarrow> bool" where
  "truthy NaN = False"
| "truthy (Num n) = (n \<noteq> 0)"
| "truthy Infinity = True"

text \<open>The comparison \<open>x > y\<close>: false as soon as one side is \<open>NaN\<close>.\<close>

fun gt :: "number \<Rightarrow> number \<Rightarrow> bool" where
  "gt NaN _ = False"
| "gt _ NaN = False"
| "gt Infinity Infinity = False"
| "gt Infinity (Num _) = True"
| "gt (Num _) Infinity = False"
| "gt (Num a) (Num b) = (b < a)"

text \<open>Decimal rendering of a number inside a template literal.\<close>

definition digit_char :: "nat \<Rightarrow> char" where
  "digit_char n = ''0123456789'' ! n"

fun show_nat :: "nat \<Rightarrow> string" where
  "show_nat n = (if n < 10 then [digit_char n] else show_nat (n div 10) @ [digit_char (n mod 10)])"

declare show_nat.simps [simp del]

definition show_int :: "int \<Rightarrow> string" where
  "show_int i = (if i < 0 then CHR ''-'' # show_nat (nat (- i)) else show_nat (nat i))"

fun show_number :: "number \<Rightarrow> string" where
  "show_number NaN = ''NaN''"
| "show_number Infinity = ''Infinity''"
| "show_number (Num i) = show_int i"

text \<open>
  \<open>parseInt(s, 10)\<close> of the language: leading white space is skipped, one sign is read,
  then the longest run of decimal digits; no digit at all gives \<open>NaN\<close>. An absent header
  is \<open>undefined\<close>, whose string form starts with no digit.
\<close>

definition is_ws :: "char \<Rightarrow> bool" where
  "is_ws c = (c \<in> set [CHR '' '', CHR 0x09, CHR 0x0A, CHR 0x0B, CHR 0x0C, CHR 0x0D])"

fun index_of :: "char \<Rightarrow> string \<Rightarrow> nat \<Rightarrow> nat option" where
  "index_of c [] n = None"
| "index_of c (d # ds) n = (if c = d then Some n else index_of c ds (Suc n))"

definition digit_val :: "char \<Rightarrow> nat option" where
  "digit_val c = index_of c ''0123456789'' 0"

fun read_digits :: "nat option \<Rightarrow> string \<Rightarrow> nat option" where
  "read_digits acc [] = acc"
| "read_digits acc (c # cs) =
     (case digit_val c of
        None \<Rightarrow> acc
      | Some d \<Rightarrow> read_digits (Some ((case acc of None \<Rightarrow> 0 | Some n \<Rightarrow> 10 * n) + d)) cs)"

definition parseInt10 :: "string option \<Rightarrow> number" where
  "parseInt10 h =
     (case h of
        None \<Rightarrow> NaN
      | Some s \<Rightarrow>
          (let t = dropWhile is_ws s;
               neg = (t \<noteq> [] \<and> hd t = CHR ''-'');
               u = (if t \<noteq> [] \<and> (hd t = CHR ''-'' \<or> hd t = CHR ''+'') then tl t else t)
           in case read_digits None u of
                None \<Rightarrow> NaN
              | Some n \<Rightarrow> Num (if neg then - int n else int n)))"

text \<open>Values inside the opaque transport options.\<close>

datatype jsvalue = JNum int | JStr string | JObj "(string \<times> jsvalue) list"

type_synonym jsobject = "(string \<times> jsvalue) list"

text \<open>
  \<open>Object.assign(target, source)\<close>: every own property of the source is written into the
  target, replacing a property of the same name; an \<open>undefined\<close> source adds nothing.
\<close>

definition Object_assign :: "jsobject \<Rightarrow> jsobject option \<Rightarrow> jsobject" where
  "Object_assign target source =
     (case source of
        None \<Rightarrow> target
      | Some src \<Rightarrow> fold (\<lambda>(k, v) t. AList.update k v t) src target)"

section \<open>Configuration: the constructor\<close>

text \<open>
  The options object the caller passes. A field that is \<open>None\<close> is a property the caller
  left out. \<open>opt_onRetry\<close> is true when the caller passed a function.
\<close>

record LargeDownloadOptions =
  opt_link :: "string option"
  opt_destination :: "string option"
  opt_timeout :: "nat option"
  opt_retries :: "int option"
  opt_httpOptions :: "jsobject option"
  opt_onRetry :: bool
  opt_minSizeToShowProgress :: "number option"

record LargeDownload =
  link :: string
  destination :: string
  timeout :: "nat option"
  retries :: int
  httpOptions :: jsobject
  onRetry :: bool
  minSizeToShowProgress :: number

datatype error = Error string

definition falsy_string :: "string option \<Rightarrow> bool" where
  "falsy_string x = (case x of None \<Rightarrow> True | Some s \<Rightarrow> s = [])"

definition new_LargeDownload :: "LargeDownloadOptions \<Rightarrow> error + LargeDownload" where
  "new_LargeDownload opts =
     (if falsy_string (opt_link opts) then Inl (Error ''Download link is not provided'')
      else if falsy_string (opt_destination opts) then Inl (Error ''Destination is not provided'')
      else Inr \<lparr>
        link = the (opt_link opts),
        destination = the (opt_destination opts),
        timeout = opt_timeout opts,
        retries = (case opt_retries opts of Some r \<Rightarrow> r | None \<Rightarrow> 1),
        httpOptions = Object_assign [(''retries'', JNum 0)] (opt_httpOptions opts),
        onRetry = opt_onRetry opts,
        minSizeToShowProgress =
          (case opt_minSizeToShowProgress opts of
             None \<Rightarrow> Num 0
           | Some m \<Rightarrow> if truthy m then m else Num 0) \<rparr>)"

section \<open>One download: \<open>load\<close>\<close>

text \<open>
  \<open>load\<close> is event driven: it registers listeners on the streams of its collaborators and
  returns; everything else happens when the environment emits an event. The model makes
  the environment explicit. An \<open>event\<close> is one emission that reaches a listener registered by
  \<open>load\<close>; an \<open>action\<close> is one call that the code makes on a collaborator, on the caller's
  hook or on the promise, and \<open>Failure\<close> marks every entry of \<open>onError\<close>. The state keeps the
  actions in a log, in the order of the calls. Attempts are numbered from 0 in the order
  \<open>tryDownload\<close> is entered; the streams, timers, responses and progress bars of an attempt
  are named by that number and the order of their creation inside the attempt. Errors are
  represented by their \<open>message\<close>, the only part of them the code reads.
\<close>

datatype closeListener = CTryDownload | CResolve

datatype action =
    GotStream nat string jsobject      \<comment> \<open>\<open>got.stream(link, httpOptions)\<close>\<close>
  | CreateWriteStream nat string       \<comment> \<open>\<open>fs.createWriteStream(destination)\<close>\<close>
  | Pipe nat                           \<comment> \<open>\<open>readable.pipe(writable)\<close>\<close>
  | Unpipe nat                         \<comment> \<open>\<open>readable.unpipe(writable)\<close>\<close>
  | RemoveFinishListener nat           \<comment> \<open>\<open>writable.removeListener('finish', onFinish)\<close>\<close>
  | End nat                            \<comment> \<open>\<open>writable.end()\<close>\<close>
  | SetTimeout nat nat nat             \<comment> \<open>attempt, timer, delay\<close>
  | ClearTimeout nat nat               \<comment> \<open>attempt, timer\<close>
  | Abort nat nat                      \<comment> \<open>\<open>req.abort()\<close> on the request that armed the timer\<close>
  | NewProgressBar nat nat number      \<comment> \<open>attempt, bar, \<open>total\<close>\<close>
  | Tick nat nat nat                   \<comment> \<open>attempt, bar, \<open>len\<close>\<close>
  | Terminate nat nat                  \<comment> \<open>attempt, bar\<close>
  | OnClose nat closeListener          \<comment> \<open>\<open>writable.on('close', ...)\<close>\<close>
  | OnRetry string                     \<comment> \<open>the caller's hook, with \<open>err.message\<close>\<close>
  | Resolve
  | Reject string
  | Failure nat string                 \<comment> \<open>\<open>onError(err)\<close> entered for the attempt, with \<open>err.message\<close>\<close>

datatype event =
    ReadableError nat string           \<comment> \<open>\<open>'error'\<close> on the attempt's readable\<close>
  | WritableError nat string           \<comment> \<open>\<open>'error'\<close> on the attempt's writable\<close>
  | Request nat                        \<comment> \<open>\<open>'request'\<close> on the readable\<close>
  | TimerExpired nat nat               \<comment> \<open>the timer of that attempt expires\<close>
  | Response nat "string option" bool  \<comment> \<open>\<open>'response'\<close>; the \<open>content-length\<close> header; \<open>process.stdout.isTTY\<close> at that time\<close>
  | Data nat nat nat                   \<comment> \<open>\<open>'data'\<close> on the given response of the attempt, \<open>chunk.length\<close>\<close>
  | Finish nat                         \<comment> \<open>\<open>'finish'\<close> on the writable\<close>
  | Close nat                          \<comment> \<open>\<open>'close'\<close> on the writable\<close>

text \<open>
  The variables that one call of \<open>tryDownload\<close> closes over, with the listener tables of
  its two streams as far as the code changes them. \<open>timers\<close> holds, for every timer the
  attempt has set, whether it is still pending; \<open>responses\<close> holds the constant
  \<open>doShowProgressBar\<close> that the data listener of each response captured; \<open>closed\<close> records
  that the writable has emitted \<open>'close'\<close>, which a stream does once.
\<close>

record attempt =
  downloadTimer :: "nat option"
  bar :: "nat option"
  declaredSize :: number
  downloadedSize :: nat
  finishListener :: bool
  closeListeners :: "closeListener list"
  timers :: "bool list"
  responses :: "bool list"
  closed :: bool

record state =
  retriesDone :: int
  attempts :: "attempt list"
  log :: "action list"

definition emit :: "action list \<Rightarrow> state \<Rightarrow> state" where
  "emit acts s = s\<lparr>log := log s @ acts\<rparr>"

definition upd :: "nat \<Rightarrow> (attempt \<Rightarrow> attempt) \<Rightarrow> state \<Rightarrow> state" where
  "upd a f s = s\<lparr>attempts := (attempts s)[a := f (attempts s ! a)]\<rparr>"

definition new_attempt :: attempt where
  "new_attempt = \<lparr> downloadTimer = None, bar = None, declaredSize = Num 0, downloadedSize = 0,
     finishListener = True, closeListeners = [], timers = [], responses = [], closed = False \<rparr>"

definition tryDownload :: "LargeDownload \<Rightarrow> state \<Rightarrow> state" where
  "tryDownload this s =
     (let a = length (attempts s)
      in emit [GotStream a (link this) (httpOptions this), CreateWriteStream a (destination this), Pipe a]
           (s\<lparr>attempts := attempts s @ [new_attempt]\<rparr>))"

definition cleanup :: "nat \<Rightarrow> state \<Rightarrow> state" where
  "cleanup a s =
     (let s1 = emit [Unpipe a, RemoveFinishListener a, End a] (upd a (\<lambda>t. t\<lparr>finishListener := False\<rparr>) s);
          s2 = (case downloadTimer (attempts s1 ! a) of
                  None \<Rightarrow> s1
                | Some k \<Rightarrow> emit [ClearTimeout a k] (upd a (\<lambda>t. t\<lparr>timers := (timers t)[k := False]\<rparr>) s1))
      in case bar (attempts s2 ! a) of
           None \<Rightarrow> s2
         | Some b \<Rightarrow> emit [Terminate a b] s2)"

definition aggregate_message :: "LargeDownload \<Rightarrow> int \<Rightarrow> string \<Rightarrow> string" where
  "aggregate_message this n msg =
     ''Could not download '' @ link this @ '' in '' @ show_int n @ '' attempts:'' @ [CHR 0x0A] @ msg"

definition onError :: "LargeDownload \<Rightarrow> nat \<Rightarrow> string \<Rightarrow> state \<Rightarrow> state" where
  "onError this a msg s =
     (let s1 = cleanup a (emit [Failure a msg] s);
          s2 = s1\<lparr>retriesDone := retriesDone s1 + 1\<rparr>
      in if retriesDone s2 \<le> retries this
         then emit [OnClose a CTryDownload]
                (upd a (\<lambda>t. t\<lparr>closeListeners := closeListeners t @ [CTryDownload]\<rparr>)
                   (if onRetry this then emit [OnRetry msg] s2 else s2))
         else emit [Reject (aggregate_message this (retriesDone s2) msg)] s2)"

definition mismatch_message :: "nat \<Rightarrow> number \<Rightarrow> string" where
  "mismatch_message downloaded declared =
     ''Downloaded file size ('' @ show_nat downloaded @ '') doesn'' @ [CHR 0x27] @ ''t match ''
     @ [CHR 0x22] @ ''content-length'' @ [CHR 0x22] @ '' header ('' @ show_number declared
     @ '') in the server response''"

definition onFinish :: "LargeDownload \<Rightarrow> nat \<Rightarrow> state \<Rightarrow> state" where
  "onFinish this a s =
     (let t = attempts s ! a
      in if truthy (declaredSize t) \<and> declaredSize t \<noteq> Num (int (downloadedSize t))
         then onError this a (mismatch_message (downloadedSize t) (declaredSize t)) s
         else emit [OnClose a CResolve]
                (upd a (\<lambda>t. t\<lparr>closeListeners := closeListeners t @ [CResolve]\<rparr>) (cleanup a s)))"

text \<open>
  The timer callback reads \<open>this.timeout\<close> again for its message; a timer exists only when
  \<open>this.timeout\<close> was set, so the \<open>None\<close> case below is never reached. Likewise the data
  listener of a response that decided to show the bar always finds \<open>bar\<close> assigned.
\<close>

definition timeout_message :: "nat \<Rightarrow> string" where
  "timeout_message ms = ''Download timeout ('' @ show_nat ms @ '') reached''"

definition onRequest :: "LargeDownload \<Rightarrow> nat \<Rightarrow> state \<Rightarrow> state" where
  "onRequest this a s =
     (case timeout this of
        None \<Rightarrow> s
      | Some ms \<Rightarrow>
          if ms = 0 then s
          else (let k = length (timers (attempts s ! a))
                in emit [SetTimeout a k ms]
                     (upd a (\<lambda>t. t\<lparr>timers := timers t @ [True], downloadTimer := Some k\<rparr>) s)))"

definition onTimer :: "LargeDownload \<Rightarrow> nat \<Rightarrow> nat \<Rightarrow> state \<Rightarrow> state" where
  "onTimer this a k s =
     onError this a (timeout_message (case timeout this of Some ms \<Rightarrow> ms | None \<Rightarrow> 0))
       (emit [Abort a k] (upd a (\<lambda>t. t\<lparr>timers := (timers t)[k := False]\<rparr>) s))"

definition onResponse :: "LargeDownload \<Rightarrow> nat \<Rightarrow> string option \<Rightarrow> bool \<Rightarrow> state \<Rightarrow> state" where
  "onResponse this a h isTTY s =
     (let d = parseInt10 h;
          doShowProgressBar = (isTTY \<and> gt d (minSizeToShowProgress this));
          j = length (responses (attempts s ! a));
          s1 = upd a (\<lambda>t. t\<lparr>declaredSize := d\<rparr>) s;
          s2 = (if doShowProgressBar
                then emit [NewProgressBar a j d] (upd a (\<lambda>t. t\<lparr>bar := Some j\<rparr>) s1)
                else s1)
      in upd a (\<lambda>t. t\<lparr>responses := responses t @ [doShowProgressBar]\<rparr>) s2)"

definition onData :: "nat \<Rightarrow> nat \<Rightarrow> nat \<Rightarrow> state \<Rightarrow> state" where
  "onData a j len s =
     (let s1 = upd a (\<lambda>t. t\<lparr>downloadedSize := downloadedSize t + len\<rparr>) s
      in if responses (attempts s1 ! a) ! j
         then (case bar (attempts s1 ! a) of Some b \<Rightarrow> emit [Tick a b len] s1 | None \<Rightarrow> s1)
         else s1)"

fun call_close_listener :: "LargeDownload \<Rightarrow> closeListener \<Rightarrow> state \<Rightarrow> state" where
  "call_close_listener this CTryDownload s = tryDownload this s"
| "call_close_listener this CResolve s = emit [Resolve] s"

definition onClose :: "LargeDownload \<Rightarrow> nat \<Rightarrow> state \<Rightarrow> state" where
  "onClose this a s =
     fold (call_close_listener this) (closeListeners (attempts s ! a))
       (upd a (\<lambda>t. t\<lparr>closed := True\<rparr>) s)"

text \<open>
  One event. An event reaches the code only if the environment can emit it and a listener
  is registered for it: the attempt exists; the \<open>'request'\<close> listener exists when
  \<open>this.timeout\<close> is truthy (the test is inside \<open>onRequest\<close>); a timer expires only while
  pending; \<open>'data'\<close> comes from a response the attempt has received; \<open>onFinish\<close> runs while it
  is attached; \<open>'close'\<close> is emitted once.
\<close>

fun step :: "LargeDownload \<Rightarrow> event \<Rightarrow> state \<Rightarrow> state" where
  "step this (ReadableError a msg) s = (if a < length (attempts s) then onError this a msg s else s)"
| "step this (WritableError a msg) s = (if a < length (attempts s) then onError this a msg s else s)"
| "step this (Request a) s = (if a < length (attempts s) then onRequest this a s else s)"
| "step this (TimerExpired a k) s =
     (if a < length (attempts s) \<and> k < length (timers (attempts s ! a)) \<and> timers (attempts s ! a) ! k
      then onTimer this a k s else s)"
| "step this (Response a h isTTY) s = (if a < length (attempts s) then onResponse this a h isTTY s else s)"
| "step this (Data a j len) s =
     (if a < length (attempts s) \<and> j < length (responses (attempts s ! a)) then onData a j len s else s)"
| "step this (Finish a) s =
     (if a < length (attempts s) \<and> finishListener (attempts s ! a) then onFinish this a s else s)"
| "step this (Close a) s =
     (if a < length (attempts s) \<and> \<not> closed (attempts s ! a) then onClose this a s else s)"

definition load :: "LargeDownload \<Rightarrow> state" where
  "load this = tryDownload this \<lparr> retriesDone = 0, attempts = [], log = [] \<rparr>"

definition run :: "LargeDownload \<Rightarrow> event list \<Rightarrow> state" where
  "run this evs = fold (step this) evs (load this)"

text \<open>
  The promise that \<open>load\<close> returns takes the first call of \<open>resolve\<close> or \<open>reject\<close> and ignores
  the later ones.
\<close>

datatype settlement = Pending | Fulfilled | Rejected string

fun promise :: "action list \<Rightarrow> settlement" where
  "promise [] = Pending"
| "promise (Resolve # _) = Fulfilled"
| "promise (Reject m # _) = Rejected m"
| "promise (_ # acts) = promise acts"

section \<open>Auxiliary notions for the proofs\<close>

text \<open>
  What the handlers add to the log and how they change the attempt, written as functions
  of the attempt's variables. The lemmas below show that the handlers do exactly this.
\<close>

fun opt_act :: "(nat \<Rightarrow> action) \<Rightarrow> nat option \<Rightarrow> action list" where
  "opt_act f None = []"
| "opt_act f (Some k) = [f k]"

definition cleanup_acts :: "nat \<Rightarrow> attempt \<Rightarrow> action list" where
  "cleanup_acts a t =
     [Unpipe a, RemoveFinishListener a, End a]
     @ opt_act (ClearTimeout a) (downloadTimer t) @ opt_act (Terminate a) (bar t)"

definition torn :: "attempt \<Rightarrow> attempt" where
  "torn t = t\<lparr>finishListener := False,
              timers := (case downloadTimer t of None \<Rightarrow> timers t | Some k \<Rightarrow> (timers t)[k := False])\<rparr>"

definition decide_acts :: "LargeDownload \<Rightarrow> nat \<Rightarrow> string \<Rightarrow> int \<Rightarrow> action list" where
  "decide_acts this a msg r =
     (if r + 1 \<le> retries this
      then (if onRetry this then [OnRetry msg] else []) @ [OnClose a CTryDownload]
      else [Reject (aggregate_message this (r + 1) msg)])"

definition failed :: "LargeDownload \<Rightarrow> int \<Rightarrow> attempt \<Rightarrow> attempt" where
  "failed this r t =
     (if r + 1 \<le> retries this then (torn t)\<lparr>closeListeners := closeListeners t @ [CTryDownload]\<rparr> else torn t)"

definition succeeded :: "attempt \<Rightarrow> attempt" where
  "succeeded t = (torn t)\<lparr>closeListeners := closeListeners t @ [CResolve]\<rparr>"

definition mismatch :: "attempt \<Rightarrow> bool" where
  "mismatch t = (truthy (declaredSize t) \<and> declaredSize t \<noteq> Num (int (downloadedSize t)))"

definition timeout_ms :: "LargeDownload \<Rightarrow> nat" where
  "timeout_ms this = (case timeout this of Some ms \<Rightarrow> ms | None \<Rightarrow> 0)"

definition show_bar :: "LargeDownload \<Rightarrow> string option \<Rightarrow> bool \<Rightarrow> bool" where
  "show_bar this h isTTY = (isTTY \<and> gt (parseInt10 h) (minSizeToShowProgress this))"

fun close_acts :: "LargeDownload \<Rightarrow> nat \<Rightarrow> closeListener list \<Rightarrow> action list" where
  "close_acts this n [] = []"
| "close_acts this n (CTryDownload # ls) =
     [GotStream n (link this) (httpOptions this), CreateWriteStream n (destination this), Pipe n]
     @ close_acts this (Suc n) ls"
| "close_acts this n (CResolve # ls) = Resolve # close_acts this n ls"


text \<open>
  The attempts for which \<open>onError\<close> has been entered, and the property of a log that \<open>resolve\<close>
  is never registered for an attempt after \<open>onError\<close> was entered for it (\<open>F\<close> holds the attempts
  that failed before the log starts).
\<close>

fun failures :: "action list \<Rightarrow> nat set" where
  "failures [] = {}"
| "failures (Failure a m # acts) = insert a (failures acts)"
| "failures (_ # acts) = failures acts"

fun resolve_sound :: "nat set \<Rightarrow> action list \<Rightarrow> bool" where
  "resolve_sound F [] = True"
| "resolve_sound F (Failure a m # acts) = resolve_sound (insert a F) acts"
| "resolve_sound F (OnClose a CResolve # acts) = (a \<notin> F \<and> resolve_sound F acts)"
| "resolve_sound F (_ # acts) = resolve_sound F acts"

definition no_success_inv :: "state \<Rightarrow> bool" where
  "no_success_inv s \<longleftrightarrow>
     resolve_sound {} (log s)
     \<and> failures (log s) \<subseteq> {a. a < length (attempts s) \<and> \<not> finishListener (attempts s ! a)}
     \<and> (\<forall>a < length (attempts s). CResolve \<in> set (closeListeners (attempts s ! a)) \<longrightarrow>
           OnClose a CResolve \<in> set (log s))"

text \<open>
  The calls on the progress bar of an attempt; a threshold that is not negative; the events
  that end an attempt whose variables are \<open>t\<close>: \<open>'finish'\<close>, an error of one of its streams, or the
  expiry of one of its pending timers.
\<close>

fun is_bar_call :: "nat \<Rightarrow> action \<Rightarrow> bool" where
  "is_bar_call a (NewProgressBar b j d) = (a = b)"
| "is_bar_call a (Tick b j len) = (a = b)"
| "is_bar_call a (Terminate b j) = (a = b)"
| "is_bar_call a _ = False"

fun nonneg :: "number \<Rightarrow> bool" where
  "nonneg NaN = False"
| "nonneg (Num n) = (0 \<le> n)"
| "nonneg Infinity = True"

fun ends_attempt :: "nat \<Rightarrow> attempt \<Rightarrow> event \<Rightarrow> bool" where
  "ends_attempt a t (Finish b) = (b = a)"
| "ends_attempt a t (ReadableError b m) = (b = a)"
| "ends_attempt a t (WritableError b m) = (b = a)"
| "ends_attempt a t (TimerExpired b k) = (b = a \<and> k < length (timers t) \<and> timers t ! k)"
| "ends_attempt a t _ = False"

text \<open>The progress bar that an attempt holds was constructed by a logged call.\<close>

definition bars_logged :: "state \<Rightarrow> bool" where
  "bars_logged s \<longleftrightarrow>
     (\<forall>a < length (attempts s). \<forall>b. bar (attempts s ! a) = Some b \<longrightarrow>
        (\<exists>d. NewProgressBar a b d \<in> set (log s)))"

text \<open>The calls of the caller's hook and of \<open>reject\<close> in a log, in order.\<close>

fun onRetry_calls :: "action list \<Rightarrow> string list" where
  "onRetry_calls [] = []"
| "onRetry_calls (OnRetry m # acts) = m # onRetry_calls acts"
| "onRetry_calls (_ # acts) = onRetry_calls acts"

fun reject_calls :: "action list \<Rightarrow> string list" where
  "reject_calls [] = []"
| "reject_calls (Reject m # acts) = m # reject_calls acts"
| "reject_calls (_ # acts) = reject_calls acts"

text \<open>
  A source whose every attempt fails: attempt \<open>i\<close> gets one error, with message \<open>errs i\<close>,
  on its readable or (where \<open>w i\<close>) on its writable, and then its writable closes.
\<close>

definition failure_event :: "bool \<Rightarrow> nat \<Rightarrow> string \<Rightarrow> event" where
  "failure_event w a msg = (if w then WritableError a msg else ReadableError a msg)"

definition failing_source :: "(nat \<Rightarrow> bool) \<Rightarrow> (nat \<Rightarrow> string) \<Rightarrow> nat \<Rightarrow> event list" where
  "failing_source w errs n = concat (map (\<lambda>i. [failure_event (w i) i (errs i), Close i]) [0..<n])"

text \<open>Configurations of the test suite, used to run the model on concrete inputs.\<close>

definition test_options :: LargeDownloadOptions where
  "test_options = \<lparr> opt_link = Some ''localhost:8080/404'', opt_destination = Some ''fixtures/temp'',
     opt_timeout = None, opt_retries = Some 3, opt_httpOptions = None, opt_onRetry = True,
     opt_minSizeToShowProgress = None \<rparr>"

definition test_download :: LargeDownload where
  "test_download = \<lparr> link = ''localhost:8080/404'', destination = ''fixtures/temp'', timeout = None,
     retries = 3, httpOptions = [(''retries'', JNum 0)], onRetry = True, minSizeToShowProgress = Num 0 \<rparr>"

definition override_options :: LargeDownloadOptions where
  "override_options = \<lparr> opt_link = Some ''localhost:8080'', opt_destination = Some ''fixtures/temp'',
     opt_timeout = Some 300000, opt_retries = Some 3,
     opt_httpOptions = Some [(''timeout'', JNum 2000), (''headers'', JObj [(''x-ololo'', JStr ''trololo'')]),
       (''retries'', JNum 3)],
     opt_onRetry = True, opt_minSizeToShowProgress = Some Infinity \<rparr>"

definition override_download :: LargeDownload where
  "override_download = \<lparr> link = ''localhost:8080'', destination = ''fixtures/temp'', timeout = Some 300000,
     retries = 3,
     httpOptions = [(''retries'', JNum 3), (''timeout'', JNum 2000),
       (''headers'', JObj [(''x-ololo'', JStr ''trololo'')])],
     onRetry = True, minSizeToShowProgress = Infinity \<rparr>"

definition slow_download :: LargeDownload where
  "slow_download = \<lparr> link = ''localhost:8080/slow'', destination = ''fixtures/temp'', timeout = Some 500,
     retries = 1, httpOptions = [(''retries'', JNum 0)], onRetry = True, minSizeToShowProgress = Num 0 \<rparr>"

text \<open>
  The entries of \<open>onError\<close> and what each one decided, and a source that lets every attempt
  run into the timeout: the request is sent, the timer expires and aborts it, the aborted
  stream emits \<open>'error'\<close>, and the writable closes.
\<close>

fun is_retry_decision :: "action \<Rightarrow> bool" where
  "is_retry_decision (Failure a m) = True"
| "is_retry_decision (OnRetry m) = True"
| "is_retry_decision (Reject m) = True"
| "is_retry_decision _ = False"

definition timeout_attempt :: "nat \<Rightarrow> event list" where
  "timeout_attempt a = [Request a, TimerExpired a 0, ReadableError a ''socket hang up'', Close a]"

section \<open>What each handler does\<close>

lemma log_emit [simp]: "log (emit acts s) = log s @ acts"
  and attempts_emit [simp]: "attempts (emit acts s) = attempts s"
  and retriesDone_emit [simp]: "retriesDone (emit acts s) = retriesDone s"
  by (simp_all add: emit_def)

lemma log_upd [simp]: "log (upd a f s) = log s"
  and attempts_upd [simp]: "attempts (upd a f s) = (attempts s)[a := f (attempts s ! a)]"
  and retriesDone_upd [simp]: "retriesDone (upd a f s) = retriesDone s"
  by (simp_all add: upd_def)

lemma new_attempt_fields [simp]:
  "downloadTimer new_attempt = None" "bar new_attempt = None" "declaredSize new_attempt = Num 0"
  "downloadedSize new_attempt = 0" "finishListener new_attempt" "closeListeners new_attempt = []"
  "timers new_attempt = []" "responses new_attempt = []" "\<not> closed new_attempt"
  by (simp_all add: new_attempt_def)

lemma in_opt_act [simp]: "x \<in> set (opt_act f v) \<longleftrightarrow> (\<exists>k. v = Some k \<and> x = f k)"
  by (cases v) auto

lemma torn_fields [simp]:
  "downloadTimer (torn t) = downloadTimer t" "bar (torn t) = bar t"
  "declaredSize (torn t) = declaredSize t" "downloadedSize (torn t) = downloadedSize t"
  "\<not> finishListener (torn t)" "closeListeners (torn t) = closeListeners t"
  "responses (torn t) = responses t" "closed (torn t) = closed t"
  "length (timers (torn t)) = length (timers t)"
  by (simp_all add: torn_def split: option.splits)

lemma failed_fields [simp]:
  "downloadTimer (failed this r t) = downloadTimer t" "bar (failed this r t) = bar t"
  "declaredSize (failed this r t) = declaredSize t" "downloadedSize (failed this r t) = downloadedSize t"
  "\<not> finishListener (failed this r t)"
  "responses (failed this r t) = responses t" "closed (failed this r t) = closed t"
  "length (timers (failed this r t)) = length (timers t)"
  "closeListeners (failed this r t) =
     closeListeners t @ (if r + 1 \<le> retries this then [CTryDownload] else [])"
  by (simp_all add: failed_def)

lemma succeeded_fields [simp]:
  "downloadTimer (succeeded t) = downloadTimer t" "bar (succeeded t) = bar t"
  "declaredSize (succeeded t) = declaredSize t" "downloadedSize (succeeded t) = downloadedSize t"
  "\<not> finishListener (succeeded t)"
  "responses (succeeded t) = responses t" "closed (succeeded t) = closed t"
  "length (timers (succeeded t)) = length (timers t)"
  "closeListeners (succeeded t) = closeListeners t @ [CResolve]"
  by (simp_all add: succeeded_def)

lemma cleanup_acts_timers [simp]: "cleanup_acts a (t\<lparr>timers := ts\<rparr>) = cleanup_acts a t"
  by (simp add: cleanup_acts_def)

lemma cleanup_acts_new: "cleanup_acts a new_attempt = [Unpipe a, RemoveFinishListener a, End a]"
  by (simp add: cleanup_acts_def)

lemma tryDownload_log [simp]:
  "log (tryDownload this s) = log s @ [GotStream (length (attempts s)) (link this) (httpOptions this),
      CreateWriteStream (length (attempts s)) (destination this), Pipe (length (attempts s))]"
  and tryDownload_attempts [simp]: "attempts (tryDownload this s) = attempts s @ [new_attempt]"
  and tryDownload_retriesDone [simp]: "retriesDone (tryDownload this s) = retriesDone s"
  by (simp_all add: tryDownload_def Let_def)

lemma cleanup_log:
  "a < length (attempts s) \<Longrightarrow> log (cleanup a s) = log s @ cleanup_acts a (attempts s ! a)"
  by (simp add: cleanup_def cleanup_acts_def Let_def split: option.splits)

lemma cleanup_attempts:
  "a < length (attempts s) \<Longrightarrow> attempts (cleanup a s) = (attempts s)[a := torn (attempts s ! a)]"
  by (simp add: cleanup_def torn_def Let_def split: option.splits)

lemma cleanup_retriesDone [simp]: "retriesDone (cleanup a s) = retriesDone s"
  by (simp add: cleanup_def Let_def split: option.splits)

lemma onError_log:
  "a < length (attempts s) \<Longrightarrow>
   log (onError this a msg s) =
     log s @ Failure a msg # cleanup_acts a (attempts s ! a) @ decide_acts this a msg (retriesDone s)"
  by (simp add: onError_def Let_def cleanup_log cleanup_attempts decide_acts_def)

lemma onError_attempts:
  "a < length (attempts s) \<Longrightarrow>
   attempts (onError this a msg s) = (attempts s)[a := failed this (retriesDone s) (attempts s ! a)]"
  by (simp add: onError_def Let_def cleanup_attempts failed_def torn_def)

lemma onError_retriesDone [simp]: "retriesDone (onError this a msg s) = retriesDone s + 1"
  by (simp add: onError_def Let_def)

lemma onFinish_mismatch:
  "mismatch (attempts s ! a) \<Longrightarrow>
   onFinish this a s =
     onError this a (mismatch_message (downloadedSize (attempts s ! a)) (declaredSize (attempts s ! a))) s"
  by (simp add: onFinish_def mismatch_def Let_def)

lemma onFinish_ok_log:
  "a < length (attempts s) \<Longrightarrow> \<not> mismatch (attempts s ! a) \<Longrightarrow>
   log (onFinish this a s) = log s @ cleanup_acts a (attempts s ! a) @ [OnClose a CResolve]"
  by (auto simp add: onFinish_def mismatch_def Let_def cleanup_log)

lemma onFinish_ok_attempts:
  "a < length (attempts s) \<Longrightarrow> \<not> mismatch (attempts s ! a) \<Longrightarrow>
   attempts (onFinish this a s) = (attempts s)[a := succeeded (attempts s ! a)]"
  by (auto simp add: onFinish_def mismatch_def Let_def cleanup_attempts succeeded_def torn_def)

lemma onFinish_log:
  "a < length (attempts s) \<Longrightarrow>
   log (onFinish this a s) = log s @
     (if mismatch (attempts s ! a)
      then Failure a (mismatch_message (downloadedSize (attempts s ! a)) (declaredSize (attempts s ! a)))
           # cleanup_acts a (attempts s ! a)
           @ decide_acts this a
               (mismatch_message (downloadedSize (attempts s ! a)) (declaredSize (attempts s ! a)))
               (retriesDone s)
      else cleanup_acts a (attempts s ! a) @ [OnClose a CResolve])"
  by (simp add: onFinish_mismatch onError_log onFinish_ok_log)

lemma onFinish_attempts:
  "a < length (attempts s) \<Longrightarrow>
   attempts (onFinish this a s) =
     (attempts s)[a := (if mismatch (attempts s ! a) then failed this (retriesDone s) (attempts s ! a)
                        else succeeded (attempts s ! a))]"
  by (simp add: onFinish_mismatch onError_attempts onFinish_ok_attempts)

lemma onFinish_retriesDone:
  "retriesDone (onFinish this a s) = (if mismatch (attempts s ! a) then retriesDone s + 1 else retriesDone s)"
  by (auto simp add: onFinish_def mismatch_def Let_def)

lemma onRequest_log:
  "log (onRequest this a s) = log s @
     (if timeout_ms this = 0 then [] else [SetTimeout a (length (timers (attempts s ! a))) (timeout_ms this)])"
  by (simp add: onRequest_def timeout_ms_def Let_def split: option.splits)

lemma onRequest_attempts:
  "attempts (onRequest this a s) =
     (if timeout_ms this = 0 then attempts s
      else (attempts s)[a := (attempts s ! a)\<lparr>timers := timers (attempts s ! a) @ [True],
             downloadTimer := Some (length (timers (attempts s ! a)))\<rparr>])"
  by (simp add: onRequest_def timeout_ms_def Let_def split: option.splits)

lemma onRequest_retriesDone [simp]: "retriesDone (onRequest this a s) = retriesDone s"
  by (simp add: onRequest_def Let_def split: option.splits)

lemma onTimer_log:
  "a < length (attempts s) \<Longrightarrow>
   log (onTimer this a k s) = log s @ Abort a k
     # Failure a (timeout_message (timeout_ms this))
     # cleanup_acts a (attempts s ! a)
     @ decide_acts this a (timeout_message (timeout_ms this)) (retriesDone s)"
  by (simp add: onTimer_def onError_log timeout_ms_def)

lemma onTimer_attempts:
  "a < length (attempts s) \<Longrightarrow>
   attempts (onTimer this a k s) =
     (attempts s)[a := failed this (retriesDone s)
        ((attempts s ! a)\<lparr>timers := (timers (attempts s ! a))[k := False]\<rparr>)]"
  by (simp add: onTimer_def onError_attempts)

lemma onTimer_retriesDone [simp]: "retriesDone (onTimer this a k s) = retriesDone s + 1"
  by (simp add: onTimer_def)

lemma onResponse_log:
  "log (onResponse this a h isTTY s) = log s @
     (if show_bar this h isTTY
      then [NewProgressBar a (length (responses (attempts s ! a))) (parseInt10 h)] else [])"
  by (simp add: onResponse_def Let_def show_bar_def)

lemma onResponse_attempts:
  "a < length (attempts s) \<Longrightarrow>
   attempts (onResponse this a h isTTY s) =
     (attempts s)[a := (attempts s ! a)\<lparr>declaredSize := parseInt10 h,
        bar := (if show_bar this h isTTY then Some (length (responses (attempts s ! a)))
                else bar (attempts s ! a)),
        responses := responses (attempts s ! a) @ [show_bar this h isTTY]\<rparr>]"
  by (simp add: onResponse_def Let_def show_bar_def)

lemma onResponse_retriesDone [simp]: "retriesDone (onResponse this a h isTTY s) = retriesDone s"
  by (simp add: onResponse_def Let_def)

lemma onData_log:
  "a < length (attempts s) \<Longrightarrow>
   log (onData a j len s) = log s @
     (if responses (attempts s ! a) ! j then opt_act (\<lambda>b. Tick a b len) (bar (attempts s ! a)) else [])"
  by (simp add: onData_def Let_def split: option.splits)

lemma onData_attempts:
  "attempts (onData a j len s) =
     (attempts s)[a := (attempts s ! a)\<lparr>downloadedSize := downloadedSize (attempts s ! a) + len\<rparr>]"
  by (simp add: onData_def Let_def split: option.splits)

lemma onData_retriesDone [simp]: "retriesDone (onData a j len s) = retriesDone s"
  by (simp add: onData_def Let_def split: option.splits)

lemma fold_close_log:
  "log (fold (call_close_listener this) ls s) = log s @ close_acts this (length (attempts s)) ls"
proof (induction ls arbitrary: s)
  case Nil
  then show ?case by simp
next
  case (Cons l ls)
  then show ?case by (cases l) simp_all
qed

lemma fold_close_attempts:
  "attempts (fold (call_close_listener this) ls s) =
     attempts s @ replicate (count_list ls CTryDownload) new_attempt"
proof (induction ls arbitrary: s)
  case Nil
  then show ?case by simp
next
  case (Cons l ls)
  then show ?case by (cases l) (simp_all add: replicate_app_Cons_same)
qed

lemma fold_close_retriesDone [simp]:
  "retriesDone (fold (call_close_listener this) ls s) = retriesDone s"
proof (induction ls arbitrary: s)
  case Nil
  then show ?case by simp
next
  case (Cons l ls)
  then show ?case by (cases l) simp_all
qed

lemma onClose_log:
  "log (onClose this a s) = log s @ close_acts this (length (attempts s)) (closeListeners (attempts s ! a))"
  by (simp add: onClose_def fold_close_log)

lemma onClose_attempts:
  "attempts (onClose this a s) =
     (attempts s)[a := (attempts s ! a)\<lparr>closed := True\<rparr>]
     @ replicate (count_list (closeListeners (attempts s ! a)) CTryDownload) new_attempt"
  by (simp add: onClose_def fold_close_attempts)

lemma onClose_retriesDone [simp]: "retriesDone (onClose this a s) = retriesDone s"
  by (simp add: onClose_def)

lemma in_close_acts:
  "x \<in> set (close_acts this n ls) \<Longrightarrow>
   x = Resolve \<or> (\<exists>b. x = GotStream b (link this) (httpOptions this))
   \<or> (\<exists>b. x = CreateWriteStream b (destination this)) \<or> (\<exists>b. x = Pipe b)"
proof (induction ls arbitrary: n)
  case Nil
  then show ?case by simp
next
  case (Cons c ls)
  then show ?case by (cases c) auto
qed

lemma load_props:
  "length (attempts (load this)) = Suc 0" "attempts (load this) ! 0 = new_attempt"
  "retriesDone (load this) = 0"
  "log (load this) = [GotStream 0 (link this) (httpOptions this), CreateWriteStream 0 (destination this), Pipe 0]"
  by (simp_all add: load_def)

lemma run_Nil: "run this [] = load this"
  by (simp add: run_def)

lemma run_append: "run this (xs @ ys) = fold (step this) ys (run this xs)"
  by (simp add: run_def)

lemma run_snoc: "run this (evs @ [ev]) = step this ev (run this evs)"
  by (simp add: run_def)

text \<open>One event only appends to the log.\<close>

lemma step_log_grows: "\<exists>acts. log (step this ev s) = log s @ acts"
  by (cases ev)
    (simp_all add: onError_log onRequest_log onTimer_log onResponse_log onData_log onFinish_log onClose_log)

lemma show_int_nat: "show_int (int n) = show_nat n"
  by (simp add: show_int_def)

lemma onRetry_calls_append: "onRetry_calls (xs @ ys) = onRetry_calls xs @ onRetry_calls ys"
  by (induction xs rule: onRetry_calls.induct) simp_all

lemma reject_calls_append: "reject_calls (xs @ ys) = reject_calls xs @ reject_calls ys"
  by (induction xs rule: reject_calls.induct) simp_all

lemma promise_append:
  "promise (xs @ ys) = (case promise xs of Pending \<Rightarrow> promise ys | p \<Rightarrow> p)"
  by (induction xs rule: promise.induct) simp_all

section \<open>The retry budget\<close>

lemma step_failure_event:
  "a < length (attempts s) \<Longrightarrow> step this (failure_event w a msg) s = onError this a msg s"
  by (simp add: failure_event_def)

lemma failing_source_Suc:
  "failing_source w errs (Suc n) = failing_source w errs n @ [failure_event (w n) n (errs n), Close n]"
  by (simp add: failing_source_def)

text \<open>One failing attempt while the budget lasts: the hook is told and the next attempt starts.\<close>

lemma failing_round_retry:
  assumes len: "length (attempts s) = Suc n" and fresh: "attempts s ! n = new_attempt"
    and r: "retriesDone s = int n" and lt: "int n < retries this"
    and def: "s' = fold (step this) [failure_event w n msg, Close n] s"
  shows "length (attempts s') = Suc (Suc n)" and "attempts s' ! Suc n = new_attempt"
    and "retriesDone s' = int (Suc n)"
    and "log s' = log s @ [Failure n msg, Unpipe n, RemoveFinishListener n, End n]
           @ (if onRetry this then [OnRetry msg] else [])
           @ [OnClose n CTryDownload, GotStream (Suc n) (link this) (httpOptions this),
              CreateWriteStream (Suc n) (destination this), Pipe (Suc n)]"
proof -
  let ?s1 = "onError this n msg s"
  have n: "n < length (attempts s)" using len by simp
  have s1: "step this (failure_event w n msg) s = ?s1"
    using n by (rule step_failure_event)
  have l1: "length (attempts ?s1) = Suc n"
    using n len by (simp add: onError_attempts)
  have t1: "attempts ?s1 ! n = failed this (int n) new_attempt"
    using n fresh r by (simp add: onError_attempts)
  have s': "s' = onClose this n ?s1"
    unfolding def using s1 l1 t1 by simp
  show "length (attempts s') = Suc (Suc n)"
    using lt by (simp add: s' onClose_attempts l1 t1)
  show "attempts s' ! Suc n = new_attempt"
    using lt by (simp add: s' onClose_attempts l1 t1 nth_append)
  show "retriesDone s' = int (Suc n)"
    by (simp add: s' r)
  show "log s' = log s @ [Failure n msg, Unpipe n, RemoveFinishListener n, End n]
           @ (if onRetry this then [OnRetry msg] else [])
           @ [OnClose n CTryDownload, GotStream (Suc n) (link this) (httpOptions this),
              CreateWriteStream (Suc n) (destination this), Pipe (Suc n)]"
    using n r lt
    by (simp add: s' onClose_log l1 t1 onError_log fresh cleanup_acts_new decide_acts_def)
qed

text \<open>The failing attempt that exhausts the budget: \<open>reject\<close>, and no further attempt.\<close>

lemma failing_round_last:
  assumes len: "length (attempts s) = Suc n" and fresh: "attempts s ! n = new_attempt"
    and r: "retriesDone s = int n" and ge: "retries this \<le> int n"
    and def: "s' = fold (step this) [failure_event w n msg, Close n] s"
  shows "length (attempts s') = Suc n"
    and "log s' = log s @ [Failure n msg, Unpipe n, RemoveFinishListener n, End n,
             Reject (aggregate_message this (int (Suc n)) msg)]"
proof -
  let ?s1 = "onError this n msg s"
  have n: "n < length (attempts s)" using len by simp
  have s1: "step this (failure_event w n msg) s = ?s1"
    using n by (rule step_failure_event)
  have l1: "length (attempts ?s1) = Suc n"
    using n len by (simp add: onError_attempts)
  have t1: "attempts ?s1 ! n = failed this (int n) new_attempt"
    using n fresh r by (simp add: onError_attempts)
  have s': "s' = onClose this n ?s1"
    unfolding def using s1 l1 t1 by simp
  show "length (attempts s') = Suc n"
    using ge by (simp add: s' onClose_attempts l1 t1)
  show "log s' = log s @ [Failure n msg, Unpipe n, RemoveFinishListener n, End n,
             Reject (aggregate_message this (int (Suc n)) msg)]"
    using n r ge
    by (simp add: s' onClose_log l1 t1 onError_log fresh cleanup_acts_new decide_acts_def add.commute)
qed

lemma failing_prefix:
  assumes "int n \<le> retries this"
  shows "length (attempts (run this (failing_source w errs n))) = Suc n
     \<and> attempts (run this (failing_source w errs n)) ! n = new_attempt
     \<and> retriesDone (run this (failing_source w errs n)) = int n
     \<and> onRetry_calls (log (run this (failing_source w errs n))) = (if onRetry this then map errs [0..<n] else [])
     \<and> reject_calls (log (run this (failing_source w errs n))) = []
     \<and> promise (log (run this (failing_source w errs n))) = Pending"
  using assms
proof (induction n)
  case 0
  show ?case
    by (simp add: failing_source_def run_def load_props)
next
  case (Suc n)
  let ?s = "run this (failing_source w errs n)"
  have IH: "length (attempts ?s) = Suc n" "attempts ?s ! n = new_attempt" "retriesDone ?s = int n"
    "onRetry_calls (log ?s) = (if onRetry this then map errs [0..<n] else [])"
    "reject_calls (log ?s) = []" "promise (log ?s) = Pending"
    using Suc by simp_all
  have lt: "int n < retries this" using Suc.prems by simp
  have run: "run this (failing_source w errs (Suc n))
      = fold (step this) [failure_event (w n) n (errs n), Close n] ?s"
    by (simp only: failing_source_Suc run_append)
  note R = failing_round_retry [OF IH(1) IH(2) IH(3) lt refl, of "w n" "errs n"]
  show ?case
    unfolding run
    by (simp only: R) (simp add: onRetry_calls_append reject_calls_append promise_append IH)
qed

text \<open>
  A source that gives every attempt exactly one stream error and then closes its writable.
  With \<open>retries = N\<close>, \<open>tryDownload\<close> is entered \<open>N + 1\<close> times, the hook \<open>onRetry\<close> is called
  \<open>N\<close> times, with the errors of the attempts \<open>0 .. N - 1\<close> in order and not with the last one,
  \<open>reject\<close> is called once, and its message reports \<open>N + 1\<close> attempts and the last error.
\<close>

lemma one_error_per_attempt:
  assumes "retries this = int N"
  shows "length (attempts (run this (failing_source w errs (Suc N)))) = Suc N
     \<and> onRetry_calls (log (run this (failing_source w errs (Suc N))))
         = (if onRetry this then map errs [0..<N] else [])
     \<and> reject_calls (log (run this (failing_source w errs (Suc N))))
         = [''Could not download '' @ link this @ '' in '' @ show_nat (Suc N) @ '' attempts:''
            @ [CHR 0x0A] @ errs N]
     \<and> promise (log (run this (failing_source w errs (Suc N))))
         = Rejected (''Could not download '' @ link this @ '' in '' @ show_nat (Suc N) @ '' attempts:''
            @ [CHR 0x0A] @ errs N)"
proof -
  let ?s = "run this (failing_source w errs N)"
  have le: "int N \<le> retries this" using assms by simp
  note P = failing_prefix [OF le, of w errs]
  have IH: "length (attempts ?s) = Suc N" "attempts ?s ! N = new_attempt" "retriesDone ?s = int N"
    "onRetry_calls (log ?s) = (if onRetry this then map errs [0..<N] else [])"
    "reject_calls (log ?s) = []" "promise (log ?s) = Pending"
    using P by simp_all
  have ge: "retries this \<le> int N" using assms by simp
  have run: "run this (failing_source w errs (Suc N))
      = fold (step this) [failure_event (w N) N (errs N), Close N] ?s"
    by (simp only: failing_source_Suc run_append)
  note L = failing_round_last [OF IH(1) IH(2) IH(3) ge refl, of "w N" "errs N"]
  show ?thesis
    unfolding run
    by (simp only: L)
      (simp add: onRetry_calls_append reject_calls_append promise_append IH aggregate_message_def
         show_int_nat del: of_nat_Suc)
qed

lemma one_error_per_attempt_example:
  "retries test_download = int 3
   \<and> length (attempts (run test_download
        (failing_source (\<lambda>i. False) (\<lambda>i. ''Response code 404 (Not Found)'') 4))) = 4
   \<and> onRetry_calls (log (run test_download
        (failing_source (\<lambda>i. False) (\<lambda>i. ''Response code 404 (Not Found)'') 4)))
       = [''Response code 404 (Not Found)'', ''Response code 404 (Not Found)'',
          ''Response code 404 (Not Found)'']
   \<and> reject_calls (log (run test_download
        (failing_source (\<lambda>i. False) (\<lambda>i. ''Response code 404 (Not Found)'') 4)))
       = [''Could not download localhost:8080/404 in 4 attempts:'' @ [CHR 0x0A]
          @ ''Response code 404 (Not Found)'']
   \<and> retries (test_download\<lparr>retries := 0\<rparr>) = int 0
   \<and> length (attempts (run (test_download\<lparr>retries := 0\<rparr>)
        (failing_source (\<lambda>i. False) (\<lambda>i. ''Response code 404 (Not Found)'') 1))) = 1
   \<and> onRetry_calls (log (run (test_download\<lparr>retries := 0\<rparr>)
        (failing_source (\<lambda>i. False) (\<lambda>i. ''Response code 404 (Not Found)'') 1))) = []
   \<and> reject_calls (log (run (test_download\<lparr>retries := 0\<rparr>)
        (failing_source (\<lambda>i. False) (\<lambda>i. ''Response code 404 (Not Found)'') 1)))
       = [''Could not download localhost:8080/404 in 1 attempts:'' @ [CHR 0x0A]
          @ ''Response code 404 (Not Found)'']"
proof -
  have r: "retries test_download = int 3"
    by (simp add: test_download_def)
  have z: "retries (test_download\<lparr>retries := 0\<rparr>) = int 0"
    by simp
  have four: "Suc 3 = 4" and one: "Suc 0 = 1"
    by simp_all
  note three = one_error_per_attempt [OF r, of "\<lambda>i. False" "\<lambda>i. ''Response code 404 (Not Found)''",
      unfolded four]
  note none = one_error_per_attempt [OF z, of "\<lambda>i. False" "\<lambda>i. ''Response code 404 (Not Found)''",
      unfolded one]
  show ?thesis
    using three none
    by (simp add: test_download_def show_nat.simps digit_char_def upt_rec)
qed

text \<open>
  C2. A failure that finds the budget used up (\<open>retriesDone + 1 > retries\<close>) ends in one call of
  \<open>reject\<close>, after teardown, with the message
  \<open>Could not download {link} in {retriesDone + 1} attempts:\n{err.message}\<close>; no retry is
  scheduled and the hook is not called; a promise still pending becomes rejected with
  that message. Every failure origin reaches the caller through \<open>onError\<close>.
\<close>

theorem aggregate_error_when_exhausted:
  assumes "a < length (attempts s)" and "retries this < retriesDone s + 1"
  shows "\<exists>acts. log (onError this a msg s)
           = log s @ acts @ [Reject (''Could not download '' @ link this @ '' in ''
               @ show_int (retriesDone s + 1) @ '' attempts:'' @ [CHR 0x0A] @ msg)]
         \<and> reject_calls acts = [] \<and> onRetry_calls acts = [] \<and> OnClose a CTryDownload \<notin> set acts
         \<and> closeListeners (attempts (onError this a msg s) ! a) = closeListeners (attempts s ! a)
         \<and> (promise (log s) = Pending \<longrightarrow>
              promise (log (onError this a msg s))
                = Rejected (''Could not download '' @ link this @ '' in ''
                    @ show_int (retriesDone s + 1) @ '' attempts:'' @ [CHR 0x0A] @ msg))"
proof -
  let ?acts = "Failure a msg # cleanup_acts a (attempts s ! a)"
  have rc: "reject_calls (cleanup_acts a t) = []" "onRetry_calls (cleanup_acts a t) = []"
    "promise (cleanup_acts a t) = Pending" for t
    by (cases "downloadTimer t"; cases "bar t"; simp add: cleanup_acts_def)+
  have "log (onError this a msg s) = log s @ ?acts @ [Reject (aggregate_message this (retriesDone s + 1) msg)]"
    using assms by (simp add: onError_log decide_acts_def)
  moreover have "reject_calls ?acts = []" "onRetry_calls ?acts = []" "promise ?acts = Pending"
    by (simp_all add: rc)
  moreover have "OnClose a CTryDownload \<notin> set ?acts"
    by (auto simp: cleanup_acts_def)
  moreover have "closeListeners (attempts (onError this a msg s) ! a) = closeListeners (attempts s ! a)"
    using assms by (simp add: onError_attempts)
  ultimately show ?thesis
    unfolding aggregate_message_def
    by (intro exI [of _ ?acts]) (simp add: promise_append)
qed

theorem aggregate_error_when_exhausted_witness:
  "0 < length (attempts (load (test_download\<lparr>retries := 0\<rparr>)))
   \<and> retries (test_download\<lparr>retries := 0\<rparr>) < retriesDone (load (test_download\<lparr>retries := 0\<rparr>)) + 1
   \<and> promise (log (onError (test_download\<lparr>retries := 0\<rparr>) 0 ''Response code 404 (Not Found)''
        (load (test_download\<lparr>retries := 0\<rparr>))))
      = Rejected (''Could not download localhost:8080/404 in 1 attempts:'' @ [CHR 0x0A]
          @ ''Response code 404 (Not Found)'')"
proof -
  let ?d = "test_download\<lparr>retries := 0\<rparr>"
  have 1: "0 < length (attempts (load ?d))" by (simp add: load_props)
  have 2: "retries ?d < retriesDone (load ?d) + 1" by (simp add: load_props)
  have 3: "promise (log (load ?d)) = Pending" by (simp add: load_props)
  show ?thesis
    using aggregate_error_when_exhausted [OF 1 2, of "''Response code 404 (Not Found)''"] 1 2 3
    by (auto simp: load_props test_download_def show_int_def show_nat.simps digit_char_def)
qed

section \<open>Transport options\<close>

lemma GotStream_step:
  assumes "GotStream b l h \<in> set (log (step this ev s))"
  shows "GotStream b l h \<in> set (log s) \<or> (l = link this \<and> h = httpOptions this)"
proof (cases ev)
  case (Close a)
  show ?thesis
    using assms in_close_acts [of "GotStream b l h" this "length (attempts s)" "closeListeners (attempts s ! a)"]
    by (auto simp: Close onClose_log split: if_splits)
qed (use assms in \<open>auto simp: onError_log onRequest_log onTimer_log onResponse_log onData_log onFinish_log
       cleanup_acts_def decide_acts_def split: if_splits\<close>)

lemma GotStream_run:
  "GotStream b l h \<in> set (log (run this evs)) \<Longrightarrow> l = link this \<and> h = httpOptions this"
proof (induction evs arbitrary: b l h rule: rev_induct)
  case Nil
  then show ?case by (simp add: run_def load_props)
next
  case (snoc ev evs)
  then show ?case
    using GotStream_step [of b l h this ev "run this evs"] by (auto simp: run_snoc)
qed

lemma map_of_rev_distinct: "distinct (map fst xs) \<Longrightarrow> map_of (rev xs) = map_of xs"
  by (subst map_of_inject_set) (simp_all add: rev_map [symmetric])

lemma map_of_fold_update:
  "map_of (fold (\<lambda>(k, v) t. AList.update k v t) src t) k =
     (case map_of (rev src) k of Some v \<Rightarrow> Some v | None \<Rightarrow> map_of t k)"
proof (induction src arbitrary: t)
  case Nil
  then show ?case by simp
next
  case (Cons p src)
  obtain k' v' where p: "p = (k', v')" by (cases p)
  show ?case
    by (simp add: p Cons.IH update_conv' map_add_def split: option.splits)
qed

text \<open>
  C9. Without \<open>httpOptions\<close> from the caller the constructor stores exactly \<open>{retries: 0}\<close>.
  With \<open>httpOptions\<close>, every key the caller supplies, \<open>retries\<close> included, has the caller's
  value in the stored object, and a key the caller does not supply keeps the default.
  The stored object is what every call of \<open>got.stream\<close> receives, the first one and the one
  of every later attempt.
\<close>

theorem httpOptions_forwarded:
  assumes "new_LargeDownload opts = Inr this"
  shows "(opt_httpOptions opts = None \<longrightarrow> httpOptions this = [(''retries'', JNum 0)])
    \<and> (\<forall>h k. opt_httpOptions opts = Some h \<and> distinct (map fst h) \<longrightarrow>
          map_of (httpOptions this) k =
            (case map_of h k of Some v \<Rightarrow> Some v | None \<Rightarrow> map_of [(''retries'', JNum 0)] k))
    \<and> (\<exists>acts. log (load this) = GotStream 0 (link this) (httpOptions this) # acts)
    \<and> (\<forall>evs a l h. GotStream a l h \<in> set (log (run this evs)) \<longrightarrow> l = link this \<and> h = httpOptions this)"
proof -
  have h: "httpOptions this = Object_assign [(''retries'', JNum 0)] (opt_httpOptions opts)"
    using assms by (auto simp: new_LargeDownload_def split: if_splits)
  have 1: "opt_httpOptions opts = None \<longrightarrow> httpOptions this = [(''retries'', JNum 0)]"
    by (simp add: h Object_assign_def)
  have 2: "map_of (httpOptions this) k =
            (case map_of src k of Some v \<Rightarrow> Some v | None \<Rightarrow> map_of [(''retries'', JNum 0)] k)"
    if "opt_httpOptions opts = Some src" "distinct (map fst src)" for src k
    using that by (simp add: h Object_assign_def map_of_fold_update map_of_rev_distinct)
  have 3: "\<exists>acts. log (load this) = GotStream 0 (link this) (httpOptions this) # acts"
    by (simp add: load_props)
  show ?thesis
    using 1 2 3 GotStream_run by blast
qed

theorem httpOptions_forwarded_witness:
  "new_LargeDownload test_options = Inr test_download
   \<and> opt_httpOptions test_options = None
   \<and> httpOptions test_download = [(''retries'', JNum 0)]
   \<and> new_LargeDownload override_options = Inr override_download
   \<and> map_of (httpOptions override_download) ''retries'' = Some (JNum 3)
   \<and> map_of (httpOptions override_download) ''timeout'' = Some (JNum 2000)
   \<and> GotStream 0 ''localhost:8080'' (httpOptions override_download)
        \<in> set (log (run override_download []))"
proof -
  have a: "new_LargeDownload test_options = Inr test_download"
    by (simp add: new_LargeDownload_def test_options_def test_download_def falsy_string_def
        Object_assign_def)
  have b: "new_LargeDownload override_options = Inr override_download"
    by (simp add: new_LargeDownload_def override_options_def override_download_def falsy_string_def
        Object_assign_def)
  have n: "opt_httpOptions test_options = None"
    by (simp add: test_options_def)
  have d: "opt_httpOptions override_options = Some [(''timeout'', JNum 2000),
       (''headers'', JObj [(''x-ololo'', JStr ''trololo'')]), (''retries'', JNum 3)]
     \<and> distinct (map fst [(''timeout'', JNum 2000),
       (''headers'', JObj [(''x-ololo'', JStr ''trololo'')]), (''retries'', JNum 3)])"
    by (simp add: override_options_def)
  have l: "link override_download = ''localhost:8080''"
    by (simp add: override_download_def)
  have g: "GotStream 0 ''localhost:8080'' (httpOptions override_download)
        \<in> set (log (run override_download []))"
    by (simp add: run_Nil load_props l)
  show ?thesis
    using httpOptions_forwarded [OF a] httpOptions_forwarded [OF b] a b n d g
    by (simp add: override_download_def)
qed

section \<open>Size validation\<close>

lemmas model_defs = run_def load_def tryDownload_def emit_def upd_def new_attempt_def
  onResponse_def onData_def onRequest_def onTimer_def onError_def onFinish_def onClose_def cleanup_def
  Let_def parseInt10_def digit_val_def is_ws_def mismatch_message_def aggregate_message_def
  timeout_message_def show_nat.simps show_int_def digit_char_def

lemma Failure_cleanup_acts [simp]: "Failure b m \<notin> set (cleanup_acts a t)"
  by (auto simp: cleanup_acts_def)

lemma OnClose_cleanup_acts [simp]: "OnClose b c \<notin> set (cleanup_acts a t)"
  by (auto simp: cleanup_acts_def)

lemma OnClose_decide_acts [simp]: "OnClose b CResolve \<notin> set (decide_acts this a msg r)"
  by (auto simp: decide_acts_def)

text \<open>
  C3. When \<open>'finish'\<close> reaches \<open>onFinish\<close>, the attempt fails exactly when \<open>declaredSize\<close> is
  truthy (a number other than 0 and \<open>NaN\<close>) and differs from \<open>downloadedSize\<close>: then
  \<open>onError\<close> gets the message \<open>Downloaded file size ({downloadedSize}) doesn't match
  "content-length" header ({declaredSize}) in the server response\<close> and \<open>resolve\<close> is not
  registered; otherwise no failure is raised and \<open>resolve\<close> is registered on \<open>'close'\<close>.
  \<open>declaredSize\<close> is \<open>parseInt\<close> of the header of the last response, \<open>downloadedSize\<close> grows by
  the length of every chunk. An absent header parses to \<open>NaN\<close> and the header \<open>0\<close> to 0:
  both are falsy, so the size is not checked.
\<close>

theorem size_checked_on_finish:
  assumes "a < length (attempts s)" and "finishListener (attempts s ! a)"
  shows "(truthy (declaredSize (attempts s ! a))
            \<and> declaredSize (attempts s ! a) \<noteq> Num (int (downloadedSize (attempts s ! a))) \<longrightarrow>
          (\<exists>acts. log (step this (Finish a) s)
              = log s @ Failure a (''Downloaded file size ('' @ show_nat (downloadedSize (attempts s ! a))
                  @ '') doesn'' @ [CHR 0x27] @ ''t match '' @ [CHR 0x22] @ ''content-length'' @ [CHR 0x22]
                  @ '' header ('' @ show_number (declaredSize (attempts s ! a))
                  @ '') in the server response'') # acts
            \<and> OnClose a CResolve \<notin> set acts))
    \<and> (\<not> (truthy (declaredSize (attempts s ! a))
            \<and> declaredSize (attempts s ! a) \<noteq> Num (int (downloadedSize (attempts s ! a)))) \<longrightarrow>
          (\<exists>acts. log (step this (Finish a) s) = log s @ acts @ [OnClose a CResolve]
            \<and> (\<forall>b m. Failure b m \<notin> set acts)))
    \<and> (\<forall>h isTTY. declaredSize (attempts (step this (Response a h isTTY) s) ! a) = parseInt10 h)
    \<and> (\<forall>j len. j < length (responses (attempts s ! a)) \<longrightarrow>
          downloadedSize (attempts (step this (Data a j len) s) ! a)
            = downloadedSize (attempts s ! a) + len)
    \<and> \<not> truthy (parseInt10 None) \<and> \<not> truthy (parseInt10 (Some ''0''))"
proof -
  let ?t = "attempts s ! a"
  have fin: "step this (Finish a) s = onFinish this a s"
    using assms by simp
  have 1: "\<exists>acts. log (step this (Finish a) s)
              = log s @ Failure a (mismatch_message (downloadedSize ?t) (declaredSize ?t)) # acts
            \<and> OnClose a CResolve \<notin> set acts" if "mismatch ?t"
    using that assms by (simp add: fin onFinish_log)
  have 2: "\<exists>acts. log (step this (Finish a) s) = log s @ acts @ [OnClose a CResolve]
            \<and> (\<forall>b m. Failure b m \<notin> set acts)" if "\<not> mismatch ?t"
    using that assms by (simp add: fin onFinish_log)
  have 3: "declaredSize (attempts (step this (Response a h isTTY) s) ! a) = parseInt10 h" for h isTTY
    using assms(1) by (simp add: onResponse_attempts)
  have 4: "downloadedSize (attempts (step this (Data a j len) s) ! a) = downloadedSize ?t + len"
    if "j < length (responses ?t)" for j len
    using that assms(1) by (simp add: onData_attempts)
  have 5: "\<not> truthy (parseInt10 None)" "\<not> truthy (parseInt10 (Some ''0''))"
    by (simp_all add: parseInt10_def digit_val_def is_ws_def)
  show ?thesis
    using 1 2 3 4 5 unfolding mismatch_def mismatch_message_def by simp
qed

theorem size_checked_on_finish_witness:
  "0 < length (attempts (run test_download [Response 0 (Some ''12'') False, Data 0 0 4, Data 0 0 6]))
   \<and> finishListener (attempts (run test_download [Response 0 (Some ''12'') False, Data 0 0 4, Data 0 0 6]) ! 0)
   \<and> (\<exists>acts. log (step test_download (Finish 0)
          (run test_download [Response 0 (Some ''12'') False, Data 0 0 4, Data 0 0 6]))
        = log (run test_download [Response 0 (Some ''12'') False, Data 0 0 4, Data 0 0 6])
          @ Failure 0 (''Downloaded file size (10) doesn'' @ [CHR 0x27] @ ''t match '' @ [CHR 0x22]
              @ ''content-length'' @ [CHR 0x22] @ '' header (12) in the server response'') # acts)
   \<and> 0 < length (attempts (run test_download [Response 0 (Some ''0'') False, Data 0 0 4]))
   \<and> finishListener (attempts (run test_download [Response 0 (Some ''0'') False, Data 0 0 4]) ! 0)
   \<and> (\<exists>acts. log (step test_download (Finish 0) (run test_download [Response 0 (Some ''0'') False, Data 0 0 4]))
        = log (run test_download [Response 0 (Some ''0'') False, Data 0 0 4]) @ acts @ [OnClose 0 CResolve])"
proof -
  let ?s1 = "run test_download [Response 0 (Some ''12'') False, Data 0 0 4, Data 0 0 6]"
  let ?s2 = "run test_download [Response 0 (Some ''0'') False, Data 0 0 4]"
  have t1: "attempts ?s1 = [\<lparr> downloadTimer = None, bar = None, declaredSize = Num 12, downloadedSize = 10,
     finishListener = True, closeListeners = [], timers = [], responses = [False], closed = False \<rparr>]"
    by (simp add: model_defs test_download_def)
  have t2: "attempts ?s2 = [\<lparr> downloadTimer = None, bar = None, declaredSize = Num 0, downloadedSize = 4,
     finishListener = True, closeListeners = [], timers = [], responses = [False], closed = False \<rparr>]"
    by (simp add: model_defs test_download_def)
  have a1: "0 < length (attempts ?s1)" and f1: "finishListener (attempts ?s1 ! 0)"
    by (simp_all add: t1)
  have a2: "0 < length (attempts ?s2)" and f2: "finishListener (attempts ?s2 ! 0)"
    by (simp_all add: t2)
  have w1: "\<exists>acts. log (step test_download (Finish 0) ?s1)
        = log ?s1 @ Failure 0 (''Downloaded file size (10) doesn'' @ [CHR 0x27] @ ''t match '' @ [CHR 0x22]
              @ ''content-length'' @ [CHR 0x22] @ '' header (12) in the server response'') # acts"
    using size_checked_on_finish [OF a1 f1, of test_download]
    by (auto simp: t1 show_nat.simps show_int_def digit_char_def)
  have w2: "\<exists>acts. log (step test_download (Finish 0) ?s2) = log ?s2 @ acts @ [OnClose 0 CResolve]"
    using size_checked_on_finish [OF a2 f2, of test_download]
    by (auto simp: t2)
  show ?thesis
    using a1 f1 a2 f2 w1 w2 by blast
qed

section \<open>The timeout guard\<close>

lemma fold_step_log_grows: "\<exists>acts. log (fold (step this) evs s) = log s @ acts"
proof (induction evs arbitrary: s)
  case Nil
  then show ?case by simp
next
  case (Cons ev evs)
  obtain acts1 where 1: "log (step this ev s) = log s @ acts1"
    using step_log_grows by blast
  obtain acts2 where 2: "log (fold (step this) evs (step this ev s)) = log (step this ev s) @ acts2"
    using Cons.IH by blast
  show ?case by (simp add: 1 2)
qed

lemma run_log_mono: "x \<in> set (log (run this xs)) \<Longrightarrow> x \<in> set (log (run this (xs @ ys)))"
  using fold_step_log_grows [of this ys "run this xs"] by (auto simp: run_append)

lemma SetTimeout_close_acts [simp]: "SetTimeout a k ms \<notin> set (close_acts this n ls)"
  using in_close_acts [of "SetTimeout a k ms" this n ls] by auto









section \<open>Success only without a prior failure\<close>

lemma failures_iff: "a \<in> failures acts \<longleftrightarrow> (\<exists>m. Failure a m \<in> set acts)"
  by (induction acts rule: failures.induct) auto

lemma failures_append [simp]: "failures (xs @ ys) = failures xs \<union> failures ys"
  by (auto simp: failures_iff)

lemma resolve_sound_append:
  "resolve_sound F (xs @ ys) \<longleftrightarrow> resolve_sound F xs \<and> resolve_sound (F \<union> failures xs) ys"
  by (induction F xs rule: resolve_sound.induct) simp_all

lemma resolve_sound_trivial: "(\<forall>a. OnClose a CResolve \<notin> set acts) \<Longrightarrow> resolve_sound F acts"
  by (induction F acts rule: resolve_sound.induct) auto

lemma failures_cleanup_acts [simp]: "failures (cleanup_acts a t) = {}"
  by (auto simp: failures_iff)

lemma failures_decide_acts [simp]: "failures (decide_acts this a msg r) = {}"
  by (auto simp: failures_iff decide_acts_def)

lemma failures_close_acts [simp]: "failures (close_acts this n ls) = {}"
  using in_close_acts [of _ this n ls] by (fastforce simp: failures_iff)

lemma resolve_sound_cleanup_acts [simp]: "resolve_sound F (cleanup_acts a t)"
  by (rule resolve_sound_trivial) simp

lemma resolve_sound_decide_acts [simp]: "resolve_sound F (decide_acts this a msg r)"
  by (rule resolve_sound_trivial) simp

lemma resolve_sound_close_acts [simp]: "resolve_sound F (close_acts this n ls)"
  using in_close_acts [of _ this n ls] by (intro resolve_sound_trivial) fastforce

lemma OnClose_close_acts [simp]: "OnClose a c \<notin> set (close_acts this n ls)"
  using in_close_acts [of "OnClose a c" this n ls] by auto

lemma failures_Tick [simp]: "failures (opt_act (\<lambda>b. Tick a b len) v) = {}"
  by (cases v) simp_all

lemma resolve_sound_Tick [simp]: "resolve_sound F (opt_act (\<lambda>b. Tick a b len) v)"
  by (cases v) simp_all

lemma no_success_inv_step:
  assumes "no_success_inv s"
  shows "no_success_inv (step this ev s)"
proof (cases ev)
  case (Close a)
  show ?thesis
    using assms
    by (auto simp: Close no_success_inv_def onClose_attempts onClose_log nth_append nth_list_update
        resolve_sound_append split: if_splits)
next
  case (Finish a)
  show ?thesis
    using assms
    by (auto simp: Finish no_success_inv_def onFinish_attempts onFinish_log nth_list_update
        resolve_sound_append split: if_splits)
qed (use assms in \<open>auto simp: no_success_inv_def onError_attempts onRequest_attempts onTimer_attempts
      onResponse_attempts onData_attempts onError_log onRequest_log onTimer_log
      onResponse_log onData_log nth_list_update resolve_sound_append split: if_splits\<close>)


lemma no_success_inv_run: "no_success_inv (run this evs)"
proof (induction evs rule: rev_induct)
  case Nil
  then show ?case by (simp add: run_Nil no_success_inv_def load_props)
next
  case (snoc ev evs)
  then show ?case by (simp add: run_snoc no_success_inv_step)
qed

lemma Resolve_close_acts: "Resolve \<in> set (close_acts this n ls) \<longleftrightarrow> CResolve \<in> set ls"
proof (induction ls arbitrary: n)
  case Nil
  then show ?case by simp
next
  case (Cons c ls)
  then show ?case by (cases c) auto
qed

lemma Resolve_step:
  "Resolve \<in> set (log (step this ev s)) \<Longrightarrow>
   Resolve \<in> set (log s)
   \<or> (\<exists>a. ev = Close a \<and> a < length (attempts s) \<and> CResolve \<in> set (closeListeners (attempts s ! a)))"
  by (cases ev)
    (auto simp: onError_log onRequest_log onTimer_log onResponse_log onData_log onFinish_log onClose_log
       cleanup_acts_def decide_acts_def Resolve_close_acts split: if_splits)

lemma Resolve_run:
  "Resolve \<in> set (log (run this evs)) \<Longrightarrow>
   \<exists>a. OnClose a CResolve \<in> set (log (run this evs)) \<and> Close a \<in> set evs"
proof (induction evs rule: rev_induct)
  case Nil
  then show ?case by (simp add: run_Nil load_props)
next
  case (snoc ev evs)
  from snoc.prems consider (old) "Resolve \<in> set (log (run this evs))"
    | (new) a where "ev = Close a" "a < length (attempts (run this evs))"
        "CResolve \<in> set (closeListeners (attempts (run this evs) ! a))"
    using Resolve_step [of this ev "run this evs"] by (auto simp: run_snoc)
  then show ?case
  proof cases
    case old
    then obtain a where "OnClose a CResolve \<in> set (log (run this evs))" "Close a \<in> set evs"
      using snoc.IH by blast
    then show ?thesis
      using run_log_mono [of "OnClose a CResolve" this evs "[ev]"] by auto
  next
    case new
    have "OnClose a CResolve \<in> set (log (run this evs))"
      using no_success_inv_run [of this evs] new(2,3) by (simp add: no_success_inv_def)
    then show ?thesis
      using run_log_mono [of "OnClose a CResolve" this evs "[ev]"] new(1) by auto
  qed
qed

text \<open>
  C10. In every run: a registration of \<open>resolve\<close> on the \<open>'close'\<close> of an attempt's writable is
  never preceded by an entry of \<open>onError\<close> for that attempt; once \<open>onError\<close> has been entered
  for an attempt its finish listener is detached, so a later \<open>'finish'\<close> of that attempt does
  nothing; and \<open>resolve\<close> is only called when a writable closes for which \<open>resolve\<close> was
  registered. Teardown removes the finish listener before it calls \<open>end\<close> on the writable.
\<close>

theorem no_success_after_failure:
  "(\<forall>xs ys. log (run this evs) = xs @ OnClose a CResolve # ys \<longrightarrow> (\<forall>m. Failure a m \<notin> set xs))
   \<and> ((\<exists>m. Failure a m \<in> set (log (run this evs))) \<longrightarrow>
        a < length (attempts (run this evs)) \<and> \<not> finishListener (attempts (run this evs) ! a)
        \<and> log (run this (evs @ [Finish a])) = log (run this evs))
   \<and> (Resolve \<in> set (log (run this evs)) \<longrightarrow>
        (\<exists>b. OnClose b CResolve \<in> set (log (run this evs)) \<and> Close b \<in> set evs))
   \<and> (\<forall>s. a < length (attempts s) \<longrightarrow>
        (\<exists>acts. log (cleanup a s) = log s @ Unpipe a # RemoveFinishListener a # End a # acts)
        \<and> \<not> finishListener (attempts (cleanup a s) ! a))"
proof -
  note inv = no_success_inv_run [of this evs, unfolded no_success_inv_def]
  have 1: "\<forall>m. Failure a m \<notin> set xs" if "log (run this evs) = xs @ OnClose a CResolve # ys" for xs ys
  proof -
    have "resolve_sound {} (xs @ OnClose a CResolve # ys)"
      using inv that by simp
    then have "a \<notin> failures xs"
      by (simp add: resolve_sound_append)
    then show ?thesis
      by (simp add: failures_iff)
  qed
  have 2: "a < length (attempts (run this evs)) \<and> \<not> finishListener (attempts (run this evs) ! a)
        \<and> log (run this (evs @ [Finish a])) = log (run this evs)"
    if "\<exists>m. Failure a m \<in> set (log (run this evs))"
  proof -
    have "a \<in> failures (log (run this evs))"
      using that by (simp add: failures_iff)
    then have "a < length (attempts (run this evs)) \<and> \<not> finishListener (attempts (run this evs) ! a)"
      using inv by blast
    then show ?thesis
      by (simp add: run_snoc)
  qed
  have 3: "(\<exists>acts. log (cleanup a s) = log s @ Unpipe a # RemoveFinishListener a # End a # acts)
        \<and> \<not> finishListener (attempts (cleanup a s) ! a)" if "a < length (attempts s)" for s
    using that by (simp add: cleanup_log cleanup_attempts cleanup_acts_def)
  show ?thesis
    using 1 2 3 Resolve_run [of this evs] by blast
qed


theorem no_success_after_failure_witness:
  "log (run test_download [Response 0 (Some ''10'') False, Data 0 0 10, Finish 0, Close 0])
     = [GotStream 0 ''localhost:8080/404'' [(''retries'', JNum 0)], CreateWriteStream 0 ''fixtures/temp'',
        Pipe 0, Unpipe 0, RemoveFinishListener 0, End 0] @ OnClose 0 CResolve # [Resolve]
   \<and> (\<forall>m. Failure 0 m \<notin> set [GotStream 0 ''localhost:8080/404'' [(''retries'', JNum 0)],
        CreateWriteStream 0 ''fixtures/temp'', Pipe 0, Unpipe 0, RemoveFinishListener 0, End 0])
   \<and> Resolve \<in> set (log (run test_download [Response 0 (Some ''10'') False, Data 0 0 10, Finish 0, Close 0]))
   \<and> Close 0 \<in> set [Response 0 (Some ''10'') False, Data 0 0 10, Finish 0, Close 0]
   \<and> Failure 0 ''ECONNRESET'' \<in> set (log (run test_download [ReadableError 0 ''ECONNRESET'']))
   \<and> \<not> finishListener (attempts (run test_download [ReadableError 0 ''ECONNRESET'']) ! 0)
   \<and> log (run test_download ([ReadableError 0 ''ECONNRESET''] @ [Finish 0]))
       = log (run test_download [ReadableError 0 ''ECONNRESET''])"
proof -
  let ?ok = "[Response 0 (Some ''10'') False, Data 0 0 10, Finish 0, Close 0]"
  let ?ko = "[ReadableError 0 ''ECONNRESET'']"
  have l: "log (run test_download ?ok)
     = [GotStream 0 ''localhost:8080/404'' [(''retries'', JNum 0)], CreateWriteStream 0 ''fixtures/temp'',
        Pipe 0, Unpipe 0, RemoveFinishListener 0, End 0] @ OnClose 0 CResolve # [Resolve]"
    by (simp add: model_defs test_download_def)
  have r: "Resolve \<in> set (log (run test_download ?ok))"
    by (simp add: l)
  have f: "Failure 0 ''ECONNRESET'' \<in> set (log (run test_download ?ko))"
    by (simp add: model_defs test_download_def)
  show ?thesis
    using no_success_after_failure [of test_download ?ok 0] no_success_after_failure [of test_download ?ko 0]
      l r f
    by auto
qed

section \<open>The progress bar\<close>

lemma data_fold:
  assumes "a < length (attempts s)" and "responses (attempts s ! a) = [sh]"
    and "bar (attempts s ! a) = (if sh then Some 0 else None)"
  shows "attempts (fold (step this) (map (Data a 0) chunks) s)
           = (attempts s)[a := (attempts s ! a)\<lparr>downloadedSize := downloadedSize (attempts s ! a) + sum_list chunks\<rparr>]
         \<and> log (fold (step this) (map (Data a 0) chunks) s) = log s @ (if sh then map (Tick a 0) chunks else [])
         \<and> retriesDone (fold (step this) (map (Data a 0) chunks) s) = retriesDone s"
  using assms
proof (induction chunks arbitrary: s)
  case Nil
  then show ?case by simp
next
  case (Cons c chunks)
  let ?s1 = "onData a 0 c s"
  have a1: "attempts ?s1 = (attempts s)[a := (attempts s ! a)\<lparr>downloadedSize := downloadedSize (attempts s ! a) + c\<rparr>]"
    by (simp add: onData_attempts)
  have l1: "log ?s1 = log s @ (if sh then [Tick a 0 c] else [])"
    using Cons.prems by (simp add: onData_log)
  have p: "a < length (attempts ?s1)" "responses (attempts ?s1 ! a) = [sh]"
    "bar (attempts ?s1 ! a) = (if sh then Some 0 else None)"
    using Cons.prems by (simp_all add: a1)
  note IH = Cons.IH [OF p]
  have unfold: "fold (step this) (map (Data a 0) (c # chunks)) s = fold (step this) (map (Data a 0) chunks) ?s1"
    using Cons.prems by simp
  show ?case
    unfolding unfold using Cons.prems(1) IH by (simp add: a1 l1 add.assoc)
qed

lemma is_bar_call_cleanup_acts:
  "filter (is_bar_call a) (cleanup_acts a t) = opt_act (Terminate a) (bar t)"
  by (cases "downloadTimer t"; cases "bar t"; simp add: cleanup_acts_def)

lemma is_bar_call_decide_acts [simp]: "filter (is_bar_call a) (decide_acts this b msg r) = []"
  by (simp add: decide_acts_def)

lemma gt_nonneg_truthy: "nonneg m \<Longrightarrow> gt d m \<Longrightarrow> truthy d"
  by (cases d; cases m) auto

lemma gt_Infinity: "\<not> gt d Infinity"
  by (cases d) simp_all

lemma bars_logged_step:
  assumes "bars_logged s"
  shows "bars_logged (step this ev s)"
proof (cases ev)
  case (Close a)
  show ?thesis
    using assms
    by (auto simp: Close bars_logged_def onClose_attempts onClose_log nth_append nth_list_update
        split: if_splits)
qed (use assms in \<open>auto simp: bars_logged_def onError_attempts onRequest_attempts onTimer_attempts
      onResponse_attempts onData_attempts onFinish_attempts onError_log onRequest_log onTimer_log
      onResponse_log onData_log onFinish_log nth_list_update split: if_splits\<close>)

lemma bars_logged_run: "bars_logged (run this evs)"
proof (induction evs rule: rev_induct)
  case Nil
  then show ?case by (simp add: run_Nil bars_logged_def load_props)
next
  case (snoc ev evs)
  then show ?case by (simp add: run_snoc bars_logged_step)
qed

lemma bar_call_close_acts [simp]:
  "Tick a b len \<notin> set (close_acts this n ls)" "Terminate a b \<notin> set (close_acts this n ls)"
  "NewProgressBar a b d \<notin> set (close_acts this n ls)"
  using in_close_acts [of _ this n ls] by fastforce+

lemma Tick_Terminate_step:
  assumes "x = Tick a b len \<or> x = Terminate a b" and "x \<in> set (log (step this ev s))"
  shows "x \<in> set (log s) \<or> (a < length (attempts s) \<and> bar (attempts s ! a) = Some b)"
  using assms
  by (cases ev)
    (auto simp: onError_log onRequest_log onTimer_log onResponse_log onData_log onFinish_log onClose_log
       cleanup_acts_def decide_acts_def split: if_splits)

lemma Tick_Terminate_run:
  assumes "x = Tick a b len \<or> x = Terminate a b" and "x \<in> set (log (run this evs))"
  shows "\<exists>d. NewProgressBar a b d \<in> set (log (run this evs))"
  using assms(2)
proof (induction evs rule: rev_induct)
  case Nil
  then show ?case using assms(1) by (auto simp: run_Nil load_props)
next
  case (snoc ev evs)
  from snoc.prems consider (old) "x \<in> set (log (run this evs))"
    | (new) "a < length (attempts (run this evs))" "bar (attempts (run this evs) ! a) = Some b"
    using Tick_Terminate_step [OF assms(1), of this ev "run this evs"] by (auto simp: run_snoc)
  then obtain d where "NewProgressBar a b d \<in> set (log (run this evs))"
  proof cases
    case old
    then show ?thesis using snoc.IH that by blast
  next
    case new
    then show ?thesis
      using bars_logged_run [of this evs] that by (auto simp: bars_logged_def)
  qed
  then show ?case
    using run_log_mono [of "NewProgressBar a b d" this evs "[ev]"] by blast
qed

lemma NewProgressBar_step:
  "NewProgressBar a b d \<in> set (log (step this ev s)) \<Longrightarrow>
     NewProgressBar a b d \<in> set (log s)
     \<or> (\<exists>h. ev = Response a h True \<and> d = parseInt10 h \<and> gt d (minSizeToShowProgress this))"
  by (cases ev)
    (auto simp: onError_log onRequest_log onTimer_log onResponse_log onData_log onFinish_log onClose_log
       cleanup_acts_def decide_acts_def show_bar_def split: if_splits)

lemma NewProgressBar_run:
  "NewProgressBar a b d \<in> set (log (run this evs)) \<Longrightarrow>
     gt d (minSizeToShowProgress this) \<and> (\<exists>h. Response a h True \<in> set evs \<and> d = parseInt10 h)"
proof (induction evs rule: rev_induct)
  case Nil
  then show ?case by (simp add: run_Nil load_props)
next
  case (snoc ev evs)
  then show ?case
    using NewProgressBar_step [of a b d this ev "run this evs"] by (auto simp: run_snoc)
qed

lemma bar_calls_of_one_attempt:
  assumes a: "a < length (attempts s)"
    and fresh: "responses (attempts s ! a) = []" "bar (attempts s ! a) = None" "finishListener (attempts s ! a)"
    and fin: "ends_attempt a (attempts s ! a) fin"
  shows "\<exists>acts. log (fold (step this) (Response a h isTTY # map (Data a 0) chunks @ [fin]) s) = log s @ acts
     \<and> filter (is_bar_call a) acts
         = (if isTTY \<and> gt (parseInt10 h) (minSizeToShowProgress this)
            then NewProgressBar a 0 (parseInt10 h) # map (Tick a 0) chunks @ [Terminate a 0]
            else [])"
proof -
  let ?t = "attempts s ! a"
  let ?sh = "show_bar this h isTTY"
  let ?s1 = "onResponse this a h isTTY s"
  let ?s2 = "fold (step this) (map (Data a 0) chunks) ?s1"
  let ?t1 = "?t\<lparr>declaredSize := parseInt10 h, bar := (if ?sh then Some 0 else None), responses := [?sh]\<rparr>"
  let ?t2 = "?t1\<lparr>downloadedSize := downloadedSize ?t + sum_list chunks\<rparr>"
  have a1: "attempts ?s1 = (attempts s)[a := ?t1]"
    using a fresh by (simp add: onResponse_attempts)
  have l1: "log ?s1 = log s @ (if ?sh then [NewProgressBar a 0 (parseInt10 h)] else [])"
    using a fresh by (simp add: onResponse_log)
  have p: "a < length (attempts ?s1)" "responses (attempts ?s1 ! a) = [?sh]"
    "bar (attempts ?s1 ! a) = (if ?sh then Some 0 else None)"
    using a by (simp_all add: a1)
  note D = data_fold [OF p, of this chunks]
  have a2: "attempts ?s2 = (attempts s)[a := ?t2]"
    using a D by (simp add: a1)
  have l2: "log ?s2 = log s @ (if ?sh then NewProgressBar a 0 (parseInt10 h) # map (Tick a 0) chunks else [])"
    using D by (simp add: l1)
  have len2: "a < length (attempts ?s2)" and t2: "attempts ?s2 ! a = ?t2"
    using a by (simp_all add: a2)
  have barcalls: "filter (is_bar_call a) (map (Tick a 0) chunks) = map (Tick a 0) chunks"
    by (induction chunks) simp_all
  have last: "\<exists>acts. log (step this fin ?s2) = log ?s2 @ acts
      \<and> filter (is_bar_call a) acts = (if ?sh then [Terminate a 0] else [])"
  proof (cases fin)
    case (ReadableError b m)
    then show ?thesis
      using fin len2 by (simp add: onError_log t2 is_bar_call_cleanup_acts)
  next
    case (WritableError b m)
    then show ?thesis
      using fin len2 by (simp add: onError_log t2 is_bar_call_cleanup_acts)
  next
    case (TimerExpired b k)
    then show ?thesis
      using fin len2 by (simp add: onTimer_log t2 is_bar_call_cleanup_acts)
  next
    case (Finish b)
    then show ?thesis
      using fin len2 fresh by (simp add: onFinish_log t2 is_bar_call_cleanup_acts)
  qed (use fin in simp_all)
  then obtain acts where acts: "log (step this fin ?s2) = log ?s2 @ acts"
    "filter (is_bar_call a) acts = (if ?sh then [Terminate a 0] else [])"
    by blast
  have run: "fold (step this) (Response a h isTTY # map (Data a 0) chunks @ [fin]) s = step this fin ?s2"
    using a by simp
  show ?thesis
    unfolding run
    by (rule exI [of _ "(if ?sh then NewProgressBar a 0 (parseInt10 h) # map (Tick a 0) chunks else []) @ acts"])
      (simp add: acts l2 barcalls show_bar_def)
qed


text \<open>
  In every run, a progress bar is constructed only at a response that arrives while
  \<open>process.stdout.isTTY\<close> holds and whose declared size exceeds \<open>minSizeToShowProgress\<close>, and
  \<open>tick\<close> and \<open>terminate\<close> are only called on a bar that was constructed: with a threshold of
  \<open>Infinity\<close> or without a terminal there is no call at all. A declared size that exceeds a
  threshold that is not negative is a known one (truthy), and no declared size exceeds
  \<open>Infinity\<close>. When the events of an attempt come in the order response, chunks, one ending
  event (\<open>'finish'\<close>, a stream error or the expiry of a pending timer), the calls on the bar
  are: none unless the terminal and the size condition hold; otherwise one construction
  with the declared size as \<open>total\<close>, one \<open>tick\<close> per chunk with its length, in order, and one
  \<open>terminate\<close>. Other orders of the events are treated in the last section.
\<close>

lemma bar_calls_in_order:
  "(\<forall>a b d. NewProgressBar a b d \<in> set (log (run this evs)) \<longrightarrow>
      gt d (minSizeToShowProgress this) \<and> (\<exists>h. Response a h True \<in> set evs \<and> d = parseInt10 h))
   \<and> (\<forall>a b len. Tick a b len \<in> set (log (run this evs)) \<longrightarrow>
      (\<exists>d. NewProgressBar a b d \<in> set (log (run this evs))))
   \<and> (\<forall>a b. Terminate a b \<in> set (log (run this evs)) \<longrightarrow>
      (\<exists>d. NewProgressBar a b d \<in> set (log (run this evs))))
   \<and> (nonneg (minSizeToShowProgress this) \<longrightarrow>
      (\<forall>d. gt d (minSizeToShowProgress this) \<longrightarrow> truthy d))
   \<and> (\<forall>d. \<not> gt d Infinity)
   \<and> (\<forall>s a fin h isTTY chunks.
        a < length (attempts s) \<and> responses (attempts s ! a) = [] \<and> bar (attempts s ! a) = None
        \<and> finishListener (attempts s ! a) \<and> ends_attempt a (attempts s ! a) fin \<longrightarrow>
        (\<exists>acts. log (fold (step this) (Response a h isTTY # map (Data a 0) chunks @ [fin]) s) = log s @ acts
          \<and> filter (is_bar_call a) acts
              = (if isTTY \<and> gt (parseInt10 h) (minSizeToShowProgress this)
                 then NewProgressBar a 0 (parseInt10 h) # map (Tick a 0) chunks @ [Terminate a 0]
                 else [])))"
proof -
  have 1: "gt d (minSizeToShowProgress this) \<and> (\<exists>h. Response a h True \<in> set evs \<and> d = parseInt10 h)"
    if "NewProgressBar a b d \<in> set (log (run this evs))" for a b d
    using that by (rule NewProgressBar_run)
  have 2: "\<exists>d. NewProgressBar a b d \<in> set (log (run this evs))"
    if "Tick a b len \<in> set (log (run this evs))" for a b len
    using Tick_Terminate_run [of "Tick a b len" a b len this evs] that by simp
  have 3: "\<exists>d. NewProgressBar a b d \<in> set (log (run this evs))"
    if "Terminate a b \<in> set (log (run this evs))" for a b
    using Tick_Terminate_run [of "Terminate a b" a b 0 this evs] that by simp
  have 4: "truthy d" if "nonneg (minSizeToShowProgress this)" "gt d (minSizeToShowProgress this)" for d
    using that by (rule gt_nonneg_truthy)
  show ?thesis
    using 1 2 3 4 gt_Infinity bar_calls_of_one_attempt [of _ _ _ this] by blast
qed

lemma bar_calls_in_order_example:
  "NewProgressBar 0 0 (Num 10) \<in> set (log (run test_download [Response 0 (Some ''10'') True, Data 0 0 4, Finish 0]))
   \<and> Tick 0 0 4 \<in> set (log (run test_download [Response 0 (Some ''10'') True, Data 0 0 4, Finish 0]))
   \<and> Terminate 0 0 \<in> set (log (run test_download [Response 0 (Some ''10'') True, Data 0 0 4, Finish 0]))
   \<and> gt (Num 10) (minSizeToShowProgress test_download)
   \<and> nonneg (minSizeToShowProgress test_download) \<and> truthy (Num 10)
   \<and> 0 < length (attempts (load test_download))
   \<and> responses (attempts (load test_download) ! 0) = [] \<and> bar (attempts (load test_download) ! 0) = None
   \<and> finishListener (attempts (load test_download) ! 0)
   \<and> ends_attempt 0 (attempts (load test_download) ! 0) (Finish 0)
   \<and> ends_attempt 0 (attempts (load test_download) ! 0) (ReadableError 0 ''ECONNRESET'')
   \<and> (\<exists>acts. log (fold (step test_download)
          (Response 0 (Some ''10'') True # map (Data 0 0) [4, 6] @ [Finish 0]) (load test_download))
        = log (load test_download) @ acts
      \<and> filter (is_bar_call 0) acts = [NewProgressBar 0 0 (Num 10), Tick 0 0 4, Tick 0 0 6, Terminate 0 0])
   \<and> (\<exists>acts. log (fold (step test_download)
          (Response 0 (Some ''10'') True # map (Data 0 0) [4] @ [ReadableError 0 ''ECONNRESET'']) (load test_download))
        = log (load test_download) @ acts
      \<and> filter (is_bar_call 0) acts = [NewProgressBar 0 0 (Num 10), Tick 0 0 4, Terminate 0 0])
   \<and> (\<exists>acts. log (fold (step test_download)
          (Response 0 (Some ''10'') False # map (Data 0 0) [4, 6] @ [Finish 0]) (load test_download))
        = log (load test_download) @ acts
      \<and> filter (is_bar_call 0) acts = [])"
proof -
  let ?evs = "[Response 0 (Some ''10'') True, Data 0 0 4, Finish 0]"
  have l: "log (run test_download ?evs)
      = [GotStream 0 ''localhost:8080/404'' [(''retries'', JNum 0)], CreateWriteStream 0 ''fixtures/temp'',
         Pipe 0, NewProgressBar 0 0 (Num 10), Tick 0 0 4,
         Failure 0 (''Downloaded file size (4) doesn'' @ [CHR 0x27] @ ''t match '' @ [CHR 0x22]
            @ ''content-length'' @ [CHR 0x22] @ '' header (10) in the server response''),
         Unpipe 0, RemoveFinishListener 0, End 0, Terminate 0 0,
         OnRetry (''Downloaded file size (4) doesn'' @ [CHR 0x27] @ ''t match '' @ [CHR 0x22]
            @ ''content-length'' @ [CHR 0x22] @ '' header (10) in the server response''),
         OnClose 0 CTryDownload]"
    by (simp add: model_defs test_download_def)
  have u: "NewProgressBar 0 0 (Num 10) \<in> set (log (run test_download ?evs))"
    "Tick 0 0 4 \<in> set (log (run test_download ?evs))"
    "Terminate 0 0 \<in> set (log (run test_download ?evs))"
    by (simp_all add: l)
  have a: "0 < length (attempts (load test_download))"
    and f: "responses (attempts (load test_download) ! 0) = []" "bar (attempts (load test_download) ! 0) = None"
      "finishListener (attempts (load test_download) ! 0)"
    by (simp_all add: load_props)
  have e1: "ends_attempt 0 (attempts (load test_download) ! 0) (Finish 0)"
    and e2: "ends_attempt 0 (attempts (load test_download) ! 0) (ReadableError 0 ''ECONNRESET'')"
    by simp_all
  have d: "parseInt10 (Some ''10'') = Num 10"
    by (simp add: parseInt10_def digit_val_def is_ws_def)
  have m: "minSizeToShowProgress test_download = Num 0"
    by (simp add: test_download_def)
  have n: "nonneg (minSizeToShowProgress test_download)"
    and g: "gt (Num 10) (minSizeToShowProgress test_download)"
    by (simp_all add: m)
  note T = bar_calls_in_order [of test_download ?evs]
  have t: "truthy (Num 10)"
    using T n g by blast
  obtain acts1 where w1:
    "log (fold (step test_download) (Response 0 (Some ''10'') True # map (Data 0 0) [4, 6] @ [Finish 0])
       (load test_download)) = log (load test_download) @ acts1"
    and b1: "filter (is_bar_call 0) acts1
      = (if True \<and> gt (parseInt10 (Some ''10'')) (minSizeToShowProgress test_download)
         then NewProgressBar 0 0 (parseInt10 (Some ''10'')) # map (Tick 0 0) [4, 6] @ [Terminate 0 0] else [])"
    using T a f e1 by blast
  obtain acts2 where w2:
    "log (fold (step test_download)
       (Response 0 (Some ''10'') True # map (Data 0 0) [4] @ [ReadableError 0 ''ECONNRESET''])
       (load test_download)) = log (load test_download) @ acts2"
    and b2: "filter (is_bar_call 0) acts2
      = (if True \<and> gt (parseInt10 (Some ''10'')) (minSizeToShowProgress test_download)
         then NewProgressBar 0 0 (parseInt10 (Some ''10'')) # map (Tick 0 0) [4] @ [Terminate 0 0] else [])"
    using T a f e2 by blast
  obtain acts3 where w3:
    "log (fold (step test_download) (Response 0 (Some ''10'') False # map (Data 0 0) [4, 6] @ [Finish 0])
       (load test_download)) = log (load test_download) @ acts3"
    and b3: "filter (is_bar_call 0) acts3
      = (if False \<and> gt (parseInt10 (Some ''10'')) (minSizeToShowProgress test_download)
         then NewProgressBar 0 0 (parseInt10 (Some ''10'')) # map (Tick 0 0) [4, 6] @ [Terminate 0 0] else [])"
    using T a f e1 by blast
  have c1: "filter (is_bar_call 0) acts1 = [NewProgressBar 0 0 (Num 10), Tick 0 0 4, Tick 0 0 6, Terminate 0 0]"
    using b1 by (simp add: d m)
  have c2: "filter (is_bar_call 0) acts2 = [NewProgressBar 0 0 (Num 10), Tick 0 0 4, Terminate 0 0]"
    using b2 by (simp add: d m)
  have c3: "filter (is_bar_call 0) acts3 = []"
    using b3 by simp
  show ?thesis
    using u a f e1 e2 n g t w1 c1 w2 c2 w3 c3 by blast
qed

section \<open>Events of an attempt after its first failure\<close>

text \<open>
  Teardown detaches the finish listener and clears the timer; the error listeners of both
  streams and the response and data listeners stay attached, a request is only aborted by
  the timer, and neither \<open>onError\<close> nor \<open>cleanup\<close> remembers that it has run for the attempt.
  The runs below show what the events do that still arrive after the first failure of an
  attempt.
\<close>

text \<open>
  C1. With \<open>retries = 2\<close> and a source whose every attempt runs into the timeout, \<open>onError\<close> is
  entered twice for every attempt, once by the timer and once by the aborted stream. The
  hook is called twice for the first attempt, with both of its errors, and never for the
  second attempt, although that attempt fails as well; both retries start when the first
  writable closes; and \<open>reject\<close> is called four times, the first time with the first error
  of the second attempt while the third attempt is still running.
\<close>

theorem timeout_source_retries_first_attempt_twice:
  "filter is_retry_decision (log (run (slow_download\<lparr>retries := 2\<rparr>)
      (timeout_attempt 0 @ timeout_attempt 1 @ timeout_attempt 2)))
   = [Failure 0 ''Download timeout (500) reached'', OnRetry ''Download timeout (500) reached'',
      Failure 0 ''socket hang up'', OnRetry ''socket hang up'',
      Failure 1 ''Download timeout (500) reached'',
      Reject (''Could not download localhost:8080/slow in 3 attempts:'' @ [CHR 0x0A]
        @ ''Download timeout (500) reached''),
      Failure 1 ''socket hang up'',
      Reject (''Could not download localhost:8080/slow in 4 attempts:'' @ [CHR 0x0A] @ ''socket hang up''),
      Failure 2 ''Download timeout (500) reached'',
      Reject (''Could not download localhost:8080/slow in 5 attempts:'' @ [CHR 0x0A]
        @ ''Download timeout (500) reached''),
      Failure 2 ''socket hang up'',
      Reject (''Could not download localhost:8080/slow in 6 attempts:'' @ [CHR 0x0A] @ ''socket hang up'')]
   \<and> length (attempts (run (slow_download\<lparr>retries := 2\<rparr>)
        (timeout_attempt 0 @ timeout_attempt 1 @ timeout_attempt 2))) = 3
   \<and> length (attempts (run (slow_download\<lparr>retries := 2\<rparr>) (timeout_attempt 0))) = 3
   \<and> map closed (attempts (run (slow_download\<lparr>retries := 2\<rparr>)
        (timeout_attempt 0 @ [Request 1, TimerExpired 1 0]))) = [True, False, False]
   \<and> promise (log (run (slow_download\<lparr>retries := 2\<rparr>)
        (timeout_attempt 0 @ [Request 1, TimerExpired 1 0])))
       = Rejected (''Could not download localhost:8080/slow in 3 attempts:'' @ [CHR 0x0A]
           @ ''Download timeout (500) reached'')"
  by (simp add: model_defs slow_download_def timeout_attempt_def)

text \<open>
  C7. One write error before the response, with a terminal: teardown runs while no bar exists
  yet; the response that arrives afterwards constructs the bar and its chunks are ticked,
  and nothing terminates it, not even the close of the writable. One write error between
  two chunks: the bar is terminated by the teardown and the second chunk is ticked after
  \<open>terminate\<close>. In both runs \<open>onError\<close> is entered once.
\<close>

theorem single_failure_leaves_bar_unterminated:
  "filter (is_bar_call 0) (log (run test_download
      [WritableError 0 ''EACCES'', Response 0 (Some ''10'') True, Data 0 0 4, Data 0 0 6, Close 0]))
   = [NewProgressBar 0 0 (Num 10), Tick 0 0 4, Tick 0 0 6]
   \<and> filter is_retry_decision (log (run test_download
      [WritableError 0 ''EACCES'', Response 0 (Some ''10'') True, Data 0 0 4, Data 0 0 6, Close 0]))
     = [Failure 0 ''EACCES'', OnRetry ''EACCES'']
   \<and> filter (is_bar_call 0) (log (run test_download
      [Response 0 (Some ''10'') True, Data 0 0 4, WritableError 0 ''EIO'', Data 0 0 6, Close 0]))
     = [NewProgressBar 0 0 (Num 10), Tick 0 0 4, Terminate 0 0, Tick 0 0 6]
   \<and> filter is_retry_decision (log (run test_download
      [Response 0 (Some ''10'') True, Data 0 0 4, WritableError 0 ''EIO'', Data 0 0 6, Close 0]))
     = [Failure 0 ''EIO'', OnRetry ''EIO'']"
  by (simp add: model_defs test_download_def)

text \<open>
  C5. A write error and then a read error on the same attempt, with a progress bar: teardown
  runs twice and calls \<open>terminate\<close> twice, and the chunk that arrives between them is ticked after
  the first \<open>terminate\<close>.
\<close>

theorem teardown_twice_terminates_twice:
  "filter (is_bar_call 0) (log (run test_download
      [Response 0 (Some ''10'') True, Data 0 0 4, WritableError 0 ''EIO'', Data 0 0 6,
       ReadableError 0 ''ECONNRESET'']))
   = [NewProgressBar 0 0 (Num 10), Tick 0 0 4, Terminate 0 0, Tick 0 0 6, Terminate 0 0]"
  by (simp add: model_defs test_download_def)

text \<open>
  C6. With \<open>retries = 1\<close> and a timeout: the timer expires, the request is aborted, and the
  aborted stream emits \<open>'error'\<close>. \<open>onError\<close> is entered twice for the one attempt: the first entry
  calls the hook and schedules the retry, the second uses up the budget and rejects with
  a message that reports two attempts although \<open>tryDownload\<close> has been entered once. When the
  writable closes, the scheduled attempt starts all the same, and when it fails \<open>reject\<close> is
  called a second time.
\<close>

theorem two_failure_origins_decide_twice:
  "retriesDone (run slow_download [Request 0, TimerExpired 0 0, ReadableError 0 ''socket hang up'']) = 2
   \<and> length (attempts (run slow_download
        [Request 0, TimerExpired 0 0, ReadableError 0 ''socket hang up''])) = 1
   \<and> filter (\<lambda>x. x = Failure 0 ''Download timeout (500) reached'' \<or> x = Failure 0 ''socket hang up'')
        (log (run slow_download [Request 0, TimerExpired 0 0, ReadableError 0 ''socket hang up'']))
       = [Failure 0 ''Download timeout (500) reached'', Failure 0 ''socket hang up'']
   \<and> onRetry_calls (log (run slow_download
        [Request 0, TimerExpired 0 0, ReadableError 0 ''socket hang up'']))
       = [''Download timeout (500) reached'']
   \<and> reject_calls (log (run slow_download
        [Request 0, TimerExpired 0 0, ReadableError 0 ''socket hang up'']))
       = [''Could not download localhost:8080/slow in 2 attempts:'' @ [CHR 0x0A] @ ''socket hang up'']
   \<and> length (attempts (run slow_download
        [Request 0, TimerExpired 0 0, ReadableError 0 ''socket hang up'', Close 0])) = 2
   \<and> reject_calls (log (run slow_download
        [Request 0, TimerExpired 0 0, ReadableError 0 ''socket hang up'', Close 0,
         ReadableError 1 ''ECONNREFUSED'']))
       = [''Could not download localhost:8080/slow in 2 attempts:'' @ [CHR 0x0A] @ ''socket hang up'',
          ''Could not download localhost:8080/slow in 3 attempts:'' @ [CHR 0x0A] @ ''ECONNREFUSED'']"
  by (simp add: model_defs slow_download_def)

text \<open>
  C8. With \<open>retries = 2\<close> and a timeout: the timer expires and the aborted stream emits
  \<open>'error'\<close> before the writable has closed. Both entries of \<open>onError\<close> register \<open>tryDownload\<close>
  on \<open>'close'\<close>; the one \<open>'close'\<close> event then enters \<open>tryDownload\<close> twice, and two writables are
  created on the destination while neither has closed.
\<close>

theorem two_failures_open_two_writers:
  "map closed (attempts (run (slow_download\<lparr>retries := 2\<rparr>)
      [Request 0, TimerExpired 0 0, ReadableError 0 ''socket hang up'', Close 0])) = [True, False, False]
   \<and> filter (\<lambda>x. x = CreateWriteStream 1 ''fixtures/temp'' \<or> x = CreateWriteStream 2 ''fixtures/temp'')
        (log (run (slow_download\<lparr>retries := 2\<rparr>)
           [Request 0, TimerExpired 0 0, ReadableError 0 ''socket hang up'', Close 0]))
       = [CreateWriteStream 1 ''fixtures/temp'', CreateWriteStream 2 ''fixtures/temp'']
   \<and> reject_calls (log (run (slow_download\<lparr>retries := 2\<rparr>)
           [Request 0, TimerExpired 0 0, ReadableError 0 ''socket hang up'', Close 0])) = []"
  by (simp add: model_defs slow_download_def)

end
